theory Spec2Isabelle
  imports Main "HOL-Library.Word"
begin

unbundle bit_operations_syntax

section \<open>Values, failures and the external primitives\<close>

text \<open>
  A \<open>Uint8Array\<close> is a list of bytes. A place of a JavaScript array that can hold
  \<open>undefined\<close> (a hole left by a write beyond the end, a read past the end) is a
  \<open>slot\<close>: \<open>None\<close> is \<open>undefined\<close>.
\<close>

type_synonym bytes = "8 word list"
type_synonym slot = "bytes option"

text \<open>
  Every \<open>throw\<close> of the sources is a value of \<open>error\<close>. \<open>TypeError\<close> stands for the
  run-time failures of JavaScript itself: a property read on \<open>undefined\<close>, and a byte
  primitive applied to \<open>undefined\<close> where its signature asks for a \<open>Uint8Array\<close>.
\<close>

datatype error =
    TypeError
  | ElementNotFound
  | InvalidStartPosition
  | StartPositionMismatch
  | CurrentTreeUndefined
  | ElementNotInAnyTree
  | NullifierExists

text \<open>
  The hash and the byte conversions are imported (\<open>@railgun-reloaded/cryptography\<close>,
  \<open>./bytes\<close>, \<open>./constants\<close>) and are parameters of the model; every function below
  that calls one of them takes the record of primitives first.
\<close>

record primitives =
  poseidonFunc :: "bytes list \<Rightarrow> bytes"
  arrayToByteLength :: "bytes \<Rightarrow> nat \<Rightarrow> bytes"
  arrayToBigInt :: "bytes \<Rightarrow> int"
  bigIntToArray :: "int \<Rightarrow> nat \<Rightarrow> bytes"
  bytesToHex :: "bytes \<Rightarrow> string"
  ZERO_HASH_BIGINT :: int

subsection \<open>JavaScript array access\<close>

text \<open>\<open>xs[i]\<close>: reading past the end gives \<open>undefined\<close>.\<close>

definition at :: "'a option list \<Rightarrow> nat \<Rightarrow> 'a option" where
  "at xs i = (if i < length xs then xs ! i else None)"

text \<open>\<open>a ?? b\<close>.\<close>

definition nullish :: "'a option \<Rightarrow> 'a option \<Rightarrow> 'a option" where
  "nullish a b = (case a of None \<Rightarrow> b | Some v \<Rightarrow> Some v)"

text \<open>\<open>xs[i] = v\<close>: a write past the end extends the array and leaves holes.\<close>

definition assign :: "'a option list \<Rightarrow> nat \<Rightarrow> 'a \<Rightarrow> 'a option list" where
  "assign xs i v =
     (if i < length xs then xs[i := Some v]
      else xs @ replicate (i - length xs) None @ [Some v])"

section \<open>The Merkle tree (src/merkletree.ts)\<close>

record MerkleProof =
  element :: bytes
  elements :: "slot list"
  indices :: int
  root :: slot

record MerkleTree =
  treeNumber :: nat
  depth :: nat
  zeros :: "bytes list"
  tree :: "slot list option list"
  treeNullifiers :: "bytes list"

text \<open>
  \<open>this.tree\<close> is an array of levels, and a place of it can be \<open>undefined\<close> like a place
  of any array: \<open>at (tree t) k\<close> is \<open>this.tree[k]\<close>. \<open>level t k\<close> is the same level as a
  list of slots, with no entries when the level does not exist.
\<close>

definition level :: "MerkleTree \<Rightarrow> nat \<Rightarrow> slot list" where
  "level t k = (case at (tree t) k of None \<Rightarrow> [] | Some l \<Rightarrow> l)"

text \<open>\<open>this.zeros[k]\<close>.\<close>

definition zeroAt :: "MerkleTree \<Rightarrow> nat \<Rightarrow> slot" where
  "zeroAt t k = (if k < length (zeros t) then Some (zeros t ! k) else None)"

text \<open>The getters \<open>root\<close> and \<open>length\<close>.\<close>

definition MerkleTree_root :: "MerkleTree \<Rightarrow> error + slot" where
  "MerkleTree_root t =
     (case at (tree t) (depth t) of None \<Rightarrow> Inl TypeError | Some l \<Rightarrow> Inr (at l 0))"

definition MerkleTree_length :: "MerkleTree \<Rightarrow> error + nat" where
  "MerkleTree_length t =
     (case at (tree t) 0 of None \<Rightarrow> Inl TypeError | Some l \<Rightarrow> Inr (length l))"

text \<open>\<open>hashLeftRight\<close> on two byte arrays, as its signature declares it.\<close>

definition hashLeftRight :: "primitives \<Rightarrow> bytes \<Rightarrow> bytes \<Rightarrow> bytes" where
  "hashLeftRight env left right =
     poseidonFunc env [arrayToByteLength env left 32, arrayToByteLength env right 32]"

text \<open>
  The call sites marked \<open>@ts-expect-error\<close> pass array reads, which can be \<open>undefined\<close>;
  \<open>arrayToByteLength\<close> of \<open>undefined\<close> is the failure \<open>TypeError\<close>.
\<close>

definition hashSlots :: "primitives \<Rightarrow> slot \<Rightarrow> slot \<Rightarrow> error + bytes" where
  "hashSlots env l r =
     (case l of
        None \<Rightarrow> Inl TypeError
      | Some a \<Rightarrow> (case r of None \<Rightarrow> Inl TypeError | Some b \<Rightarrow> Inr (hashLeftRight env a b)))"

definition zeroValue :: "primitives \<Rightarrow> bytes" where
  "zeroValue env = bigIntToArray env (ZERO_HASH_BIGINT env) 32"

text \<open>
  \<open>getZeroValueLevels\<close>: the loop \<open>for (level = 1; level < depth; level += 1)\<close>, with the
  number of iterations left as first argument.
\<close>

fun zeroLevelsLoop :: "primitives \<Rightarrow> nat \<Rightarrow> nat \<Rightarrow> bytes list \<Rightarrow> bytes list" where
  "zeroLevelsLoop env 0 lv levels = levels"
| "zeroLevelsLoop env (Suc n) lv levels =
     zeroLevelsLoop env n (lv + 1)
       (levels @ [hashLeftRight env (levels ! (lv - 1)) (levels ! (lv - 1))])"

definition getZeroValueLevels :: "primitives \<Rightarrow> nat \<Rightarrow> bytes list" where
  "getZeroValueLevels env d = zeroLevelsLoop env (d - 1) 1 [zeroValue env]"

text \<open>
  \<open>createTree\<close>: \<open>Array(depth).fill(0).map(() => [])\<close> gives \<open>depth\<close> empty levels and
  \<open>tree[depth] = [...]\<close> appends the root level. \<open>fromTree?.root ?? hash\<close> evaluates the
  hash only when there is no root to take.
\<close>

definition createTree :: "primitives \<Rightarrow> nat \<Rightarrow> nat \<Rightarrow> MerkleTree option \<Rightarrow> error + MerkleTree" where
  "createTree env number d fromTree =
     (let zs = getZeroValueLevels env d;
          mk = (\<lambda>r. \<lparr>treeNumber = number, depth = d, zeros = zs,
                     tree = replicate d (Some []) @ [Some [Some r]], treeNullifiers = []\<rparr>);
          fresh = (if d = 0 then Inl TypeError
                   else Inr (mk (hashLeftRight env (zs ! (d - 1)) (zs ! (d - 1)))))
      in case fromTree of
           None \<Rightarrow> fresh
         | Some ft \<Rightarrow>
             (case MerkleTree_root ft of
                Inl e \<Rightarrow> Inl e
              | Inr None \<Rightarrow> fresh
              | Inr (Some r) \<Rightarrow> Inr (mk r)))"

text \<open>
  \<open>rebuildSparseTree\<close>. The inner loop hashes the pairs of one level onto the end of the
  level being built; a failing hash leaves what was pushed before it.
\<close>

fun hashPairs :: "primitives \<Rightarrow> slot \<Rightarrow> slot list \<Rightarrow> slot list \<Rightarrow> (error + unit) \<times> slot list" where
  "hashPairs env z [] out = (Inr (), out)"
| "hashPairs env z [l] out =
     (case hashSlots env l (nullish None z) of
        Inl e \<Rightarrow> (Inl e, out)
      | Inr h \<Rightarrow> (Inr (), out @ [Some h]))"
| "hashPairs env z (l # r # rest) out =
     (case hashSlots env l (nullish r z) of
        Inl e \<Rightarrow> (Inl e, out)
      | Inr h \<Rightarrow> hashPairs env z rest (out @ [Some h]))"

text \<open>
  The outer loop, with the number of levels left as second argument. Each round first
  assigns the empty array to \<open>this.tree[level + 1]\<close> and then reads
  \<open>this.tree[level].length\<close>: when level \<open>lv\<close> does not exist the read fails after the
  assignment, which has then extended the table (a table with no level at all becomes a
  hole followed by the empty level 1). Otherwise level \<open>lv + 1\<close> ends as what the inner
  loop pushed.
\<close>

fun rebuildLevels :: "primitives \<Rightarrow> nat \<Rightarrow> nat \<Rightarrow> MerkleTree \<Rightarrow> (error + unit) \<times> MerkleTree" where
  "rebuildLevels env 0 lv t = (Inr (), t)"
| "rebuildLevels env (Suc n) lv t =
     (case at (tree t) lv of
        None \<Rightarrow> (Inl TypeError, t\<lparr>tree := assign (tree t) (lv + 1) []\<rparr>)
      | Some l \<Rightarrow>
          (case hashPairs env (zeroAt t lv) l [] of
             (Inl e, out) \<Rightarrow> (Inl e, t\<lparr>tree := assign (tree t) (lv + 1) out\<rparr>)
           | (Inr u, out) \<Rightarrow>
               rebuildLevels env n (lv + 1) (t\<lparr>tree := assign (tree t) (lv + 1) out\<rparr>)))"

definition rebuildSparseTree :: "primitives \<Rightarrow> MerkleTree \<Rightarrow> (error + unit) \<times> MerkleTree" where
  "rebuildSparseTree env t = rebuildLevels env (depth t) 0 t"

text \<open>\<open>insertLeaves\<close> of a tree: the \<open>forEach\<close> writes leaf \<open>index\<close> at \<open>startPosition + index\<close>.\<close>

fun writeLeaves :: "slot list \<Rightarrow> nat \<Rightarrow> bytes list \<Rightarrow> slot list" where
  "writeLeaves xs pos [] = xs"
| "writeLeaves xs pos (leaf # leaves) = writeLeaves (assign xs pos leaf) (pos + 1) leaves"

definition MerkleTree_insertLeaves :: "MerkleTree \<Rightarrow> bytes list \<Rightarrow> nat \<Rightarrow> (error + unit) \<times> MerkleTree" where
  "MerkleTree_insertLeaves t leaves startPosition =
     (if leaves = [] then (Inr (), t)
      else case at (tree t) 0 of
             None \<Rightarrow> (Inl TypeError, t)
           | Some l \<Rightarrow> (Inr (), t\<lparr>tree := (tree t)[0 := Some (writeLeaves l startPosition leaves)]\<rparr>))"

text \<open>
  \<open>generateProof\<close>. \<open>indexOf\<close> on the leaf level mapped through \<open>arrayToBigInt\<close> finds the
  first leaf with the integer value of the element; holes are skipped.
\<close>

fun indexOfBig :: "primitives \<Rightarrow> slot list \<Rightarrow> int \<Rightarrow> nat \<Rightarrow> nat option" where
  "indexOfBig env [] v i = None"
| "indexOfBig env (x # xs) v i =
     (case x of
        None \<Rightarrow> indexOfBig env xs v (i + 1)
      | Some b \<Rightarrow> if arrayToBigInt env b = v then Some i else indexOfBig env xs v (i + 1))"

text \<open>
  The sibling pushed at one level that exists: the right one with the zero fallback, the
  left one without. The walk fails at the first level that does not exist.
\<close>

definition sibling :: "MerkleTree \<Rightarrow> nat \<Rightarrow> nat \<Rightarrow> slot" where
  "sibling t lv index =
     (if index mod 2 = 0 then nullish (at (level t lv) (index + 1)) (zeroAt t lv)
      else at (level t lv) (index - 1))"

fun proofWalk :: "MerkleTree \<Rightarrow> nat \<Rightarrow> nat \<Rightarrow> nat \<Rightarrow> error + slot list" where
  "proofWalk t 0 lv index = Inr []"
| "proofWalk t (Suc n) lv index =
     (case at (tree t) lv of
        None \<Rightarrow> Inl TypeError
      | Some l \<Rightarrow>
          (case proofWalk t n (lv + 1) (index div 2) of
             Inl e \<Rightarrow> Inl e
           | Inr es \<Rightarrow> Inr (sibling t lv index # es)))"

definition MerkleTree_generateProof :: "primitives \<Rightarrow> MerkleTree \<Rightarrow> bytes \<Rightarrow> error + MerkleProof" where
  "MerkleTree_generateProof env t el =
     (case at (tree t) 0 of
        None \<Rightarrow> Inl TypeError
      | Some l \<Rightarrow>
          (case indexOfBig env l (arrayToBigInt env el) 0 of
             None \<Rightarrow> Inl ElementNotFound
           | Some initialIndex \<Rightarrow>
               (case proofWalk t (depth t) 0 initialIndex of
                  Inl e \<Rightarrow> Inl e
                | Inr es \<Rightarrow>
                    (case MerkleTree_root t of
                       Inl e \<Rightarrow> Inl e
                     | Inr r \<Rightarrow> Inr \<lparr>element = el, elements = es,
                                     indices = int initialIndex, root = r\<rparr>))))"

text \<open>
  \<open>validateProof\<close>: the \<open>reduce\<close> over \<open>proof.elements\<close> with its running index, then the
  comparison of the two hex strings.
\<close>

fun reduceProof :: "primitives \<Rightarrow> int \<Rightarrow> nat \<Rightarrow> bytes \<Rightarrow> slot list \<Rightarrow> error + bytes" where
  "reduceProof env ind i current [] = Inr current"
| "reduceProof env ind i current (e # es) =
     (case (if (ind AND 2 ^ i) > 0 then hashSlots env e (Some current)
            else hashSlots env (Some current) e) of
        Inl err \<Rightarrow> Inl err
      | Inr h \<Rightarrow> reduceProof env ind (i + 1) h es)"

definition validateProof :: "primitives \<Rightarrow> MerkleProof \<Rightarrow> error + bool" where
  "validateProof env proof =
     (case reduceProof env (indices proof) 0 (element proof) (elements proof) of
        Inl e \<Rightarrow> Inl e
      | Inr calculatedRoot \<Rightarrow>
          (case root proof of
             None \<Rightarrow> Inl TypeError
           | Some r \<Rightarrow> Inr (bytesToHex env r = bytesToHex env calculatedRoot)))"

section \<open>The pool of trees (MerkleHelper)\<close>

record MerkleHelper =
  trees :: "MerkleTree list"
  currentTreeIndex :: nat
  maxLeaves :: nat
  treeDepth :: nat

text \<open>The constructor: one fresh tree, \<open>maxLeaves = 2 ** treeDepth\<close>.\<close>

definition MerkleHelper_new :: "primitives \<Rightarrow> nat \<Rightarrow> error + MerkleHelper" where
  "MerkleHelper_new env d =
     (case createTree env 0 d None of
        Inl e \<Rightarrow> Inl e
      | Inr firstTree \<Rightarrow>
          Inr \<lparr>trees = [firstTree], currentTreeIndex = 0, maxLeaves = 2 ^ d, treeDepth = d\<rparr>)"

definition currentTree :: "MerkleHelper \<Rightarrow> error + MerkleTree" where
  "currentTree p =
     (if currentTreeIndex p < length (trees p) then Inr (trees p ! currentTreeIndex p)
      else Inl CurrentTreeUndefined)"

text \<open>
  \<open>this.currentTree.m(...)\<close> for a method \<open>m\<close> that mutates the tree it is called on: the
  tree object in \<open>this.trees\<close> is the one changed, also when \<open>m\<close> throws half-way.
\<close>

definition onCurrentTree ::
  "(MerkleTree \<Rightarrow> (error + 'a) \<times> MerkleTree) \<Rightarrow> MerkleHelper \<Rightarrow> (error + 'a) \<times> MerkleHelper" where
  "onCurrentTree m p =
     (case currentTree p of
        Inl e \<Rightarrow> (Inl e, p)
      | Inr ct \<Rightarrow>
          (case m ct of (r, ct') \<Rightarrow> (r, p\<lparr>trees := (trees p)[currentTreeIndex p := ct']\<rparr>)))"

definition createNextTree :: "primitives \<Rightarrow> MerkleHelper \<Rightarrow> (error + unit) \<times> MerkleHelper" where
  "createNextTree env p =
     (let nextTreeNumber = length (trees p)
      in case currentTree p of
           Inl e \<Rightarrow> (Inl e, p)
         | Inr ct \<Rightarrow>
             (case createTree env nextTreeNumber (treeDepth p) (Some ct) of
                Inl e \<Rightarrow> (Inl e, p)
              | Inr newTree \<Rightarrow>
                  (Inr (), p\<lparr>trees := trees p @ [newTree], currentTreeIndex := nextTreeNumber\<rparr>)))"

definition finalizeTree :: "primitives \<Rightarrow> MerkleHelper \<Rightarrow> (error + unit) \<times> MerkleHelper" where
  "finalizeTree env p = onCurrentTree (rebuildSparseTree env) p"

text \<open>\<open>leaves.slice(n)\<close>: a negative \<open>n\<close> counts from the end.\<close>

definition sliceFrom :: "'a list \<Rightarrow> int \<Rightarrow> 'a list" where
  "sliceFrom xs n = (if 0 \<le> n then drop (nat n) xs else drop (nat (int (length xs) + n)) xs)"

text \<open>
  \<open>insertLeaves\<close> of the pool. \<open>startPosition\<close> is any integer; the result is the returned
  tree index or the error thrown, with the pool as the call leaves it.
\<close>

definition MerkleHelper_insertLeaves ::
  "primitives \<Rightarrow> MerkleHelper \<Rightarrow> bytes list \<Rightarrow> int \<Rightarrow> (error + nat) \<times> MerkleHelper" where
  "MerkleHelper_insertLeaves env p leaves startPosition =
     (if leaves = [] then (Inr (currentTreeIndex p), p)
      else if startPosition < 0 \<or> startPosition \<ge> int (maxLeaves p) then (Inl InvalidStartPosition, p)
      else case currentTree p of
        Inl e \<Rightarrow> (Inl e, p)
      | Inr ct \<Rightarrow>
        (case MerkleTree_length ct of
           Inl e \<Rightarrow> (Inl e, p)
         | Inr len \<Rightarrow>
           if startPosition \<noteq> int len then (Inl StartPositionMismatch, p)
           else if len + length leaves > maxLeaves p then
             (let remainingLeaves = int (maxLeaves p) - int len;
                  newLeaves = sliceFrom leaves remainingLeaves
              in case (if remainingLeaves > 0
                       then onCurrentTree (\<lambda>t. MerkleTree_insertLeaves t
                              (take (nat remainingLeaves) leaves) (nat startPosition)) p
                       else (Inr (), p)) of
                   (Inl e, p1) \<Rightarrow> (Inl e, p1)
                 | (Inr u1, p1) \<Rightarrow>
                   (case finalizeTree env p1 of
                      (Inl e, p2) \<Rightarrow> (Inl e, p2)
                    | (Inr u2, p2) \<Rightarrow>
                      (case createNextTree env p2 of
                         (Inl e, p3) \<Rightarrow> (Inl e, p3)
                       | (Inr u3, p3) \<Rightarrow>
                         (case onCurrentTree (\<lambda>t. MerkleTree_insertLeaves t newLeaves 0) p3 of
                            (Inl e, p4) \<Rightarrow> (Inl e, p4)
                          | (Inr u4, p4) \<Rightarrow> (Inr (currentTreeIndex p4), p4)))))
           else
             (case onCurrentTree (\<lambda>t. MerkleTree_insertLeaves t leaves (nat startPosition)) p of
                (Inl e, p1) \<Rightarrow> (Inl e, p1)
              | (Inr u1, p1) \<Rightarrow> (Inr (currentTreeIndex p1), p1))))"

text \<open>
  \<open>generateProof\<close> of the pool: the tree asked for when the index names one, otherwise
  the first tree whose own \<open>generateProof\<close> does not throw.
\<close>

fun searchTrees :: "primitives \<Rightarrow> MerkleTree list \<Rightarrow> bytes \<Rightarrow> nat \<Rightarrow> error + MerkleProof \<times> nat" where
  "searchTrees env [] el i = Inl ElementNotInAnyTree"
| "searchTrees env (t # ts) el i =
     (case MerkleTree_generateProof env t el of
        Inr pr \<Rightarrow> Inr (pr, i)
      | Inl e \<Rightarrow> searchTrees env ts el (i + 1))"

definition MerkleHelper_generateProof ::
  "primitives \<Rightarrow> MerkleHelper \<Rightarrow> bytes \<Rightarrow> int option \<Rightarrow> error + MerkleProof \<times> nat" where
  "MerkleHelper_generateProof env p el treeIndex =
     (case treeIndex of
        None \<Rightarrow> searchTrees env (trees p) el 0
      | Some ti \<Rightarrow>
          if 0 \<le> ti \<and> ti < int (length (trees p)) then
            (case MerkleTree_generateProof env (trees p ! nat ti) el of
               Inl e \<Rightarrow> Inl e
             | Inr pr \<Rightarrow> Inr (pr, nat ti))
          else searchTrees env (trees p) el 0)"

definition MerkleHelper_root :: "MerkleHelper \<Rightarrow> error + slot" where
  "MerkleHelper_root p = (case currentTree p of Inl e \<Rightarrow> Inl e | Inr ct \<Rightarrow> MerkleTree_root ct)"

section \<open>The manager (src/manager.ts)\<close>

record MerkleManager =
  utxo :: MerkleHelper
  txid :: MerkleHelper
  nullifiers :: "string set"

definition MerkleManager_new :: "primitives \<Rightarrow> nat \<Rightarrow> error + MerkleManager" where
  "MerkleManager_new env d =
     (case MerkleHelper_new env d of
        Inl e \<Rightarrow> Inl e
      | Inr u \<Rightarrow>
          (case MerkleHelper_new env d of
             Inl e \<Rightarrow> Inl e
           | Inr x \<Rightarrow> Inr \<lparr>utxo = u, txid = x, nullifiers = {}\<rparr>))"

definition insertTXIDLeaves ::
  "primitives \<Rightarrow> MerkleManager \<Rightarrow> bytes list \<Rightarrow> int \<Rightarrow> (error + unit) \<times> MerkleManager" where
  "insertTXIDLeaves env m leaves startPosition =
     (case MerkleHelper_insertLeaves env (txid m) leaves startPosition of
        (Inl e, p') \<Rightarrow> (Inl e, m\<lparr>txid := p'\<rparr>)
      | (Inr i, p') \<Rightarrow> (Inr (), m\<lparr>txid := p'\<rparr>))"

definition insertNullifier :: "MerkleManager \<Rightarrow> string \<Rightarrow> (error + unit) \<times> MerkleManager" where
  "insertNullifier m nullifier =
     (if nullifier \<in> nullifiers m then (Inl NullifierExists, m)
      else (Inr (), m\<lparr>nullifiers := insert nullifier (nullifiers m)\<rparr>))"

text \<open>\<open>checkNullifier\<close> returns the answer and the manager as the call leaves it.\<close>

definition checkNullifier :: "MerkleManager \<Rightarrow> string \<Rightarrow> bool \<times> MerkleManager" where
  "checkNullifier m nullifier = (nullifier \<in> nullifiers m, m)"

section \<open>Auxiliary definitions\<close>

subsection \<open>Consistency of a rebuilt tree\<close>

text \<open>
  A tree \<open>has\<close> level \<open>k\<close> when \<open>this.tree[k]\<close> is defined. Level \<open>k + 1\<close> is \<open>linked\<close> to
  level \<open>k\<close> when both exist and level \<open>k + 1\<close> is what the inner loop of
  \<open>rebuildSparseTree\<close> computes from level \<open>k\<close>; a tree is \<open>rebuilt\<close> when it has a leaf
  level and every level up to the root is linked to the one below.
\<close>

definition has :: "MerkleTree \<Rightarrow> nat \<Rightarrow> bool" where
  "has t k \<longleftrightarrow> at (tree t) k \<noteq> None"

definition linked :: "primitives \<Rightarrow> MerkleTree \<Rightarrow> nat \<Rightarrow> bool" where
  "linked env t k \<longleftrightarrow>
     has t k \<and> has t (k + 1) \<and>
     hashPairs env (zeroAt t k) (level t k) [] = (Inr (), level t (k + 1))"

definition rebuilt :: "primitives \<Rightarrow> MerkleTree \<Rightarrow> bool" where
  "rebuilt env t \<longleftrightarrow> has t 0 \<and> (\<forall>k < depth t. linked env t k)"

subsection \<open>Trees and pools as the pool's own operations leave them\<close>

text \<open>
  A tree of a pool of depth \<open>d\<close>: \<open>d + 1\<close> levels, all of them there, \<open>d\<close> zero values,
  and a leaf level without holes (the pool only ever writes at the end of the leaf level).
\<close>

definition treeOK :: "nat \<Rightarrow> MerkleTree \<Rightarrow> bool" where
  "treeOK d t \<longleftrightarrow>
     depth t = d \<and> length (tree t) = d + 1 \<and> None \<notin> set (tree t) \<and> length (zeros t) = d
     \<and> None \<notin> set (level t 0)"

definition pool_inv :: "MerkleHelper \<Rightarrow> bool" where
  "pool_inv p \<longleftrightarrow>
     0 < treeDepth p \<and> maxLeaves p = 2 ^ treeDepth p \<and>
     currentTreeIndex p < length (trees p) \<and>
     treeOK (treeDepth p) (trees p ! currentTreeIndex p)"

subsection \<open>Proof validation as the specification words it\<close>

text \<open>
  The specification's description of \<open>validateProof\<close>: start from \<open>proof.element\<close>; for
  level \<open>i = 0, 1, ...\<close> combine the running hash with \<open>proof.elements[i]\<close>, the running hash
  on the right if bit \<open>i\<close> of \<open>proof.indices\<close> is set and on the left otherwise; the proof is
  valid iff the final hash is byte for byte \<open>proof.root\<close>. The levels are those of
  \<open>proof.elements\<close>, which a proof holds one of per level of the tree.
\<close>

function combineFrom :: "primitives \<Rightarrow> MerkleProof \<Rightarrow> nat \<Rightarrow> bytes \<Rightarrow> error + bytes" where
  "combineFrom env p i running =
     (if i < length (elements p) then
        (case (if bit (indices p) i then hashSlots env (elements p ! i) (Some running)
               else hashSlots env (Some running) (elements p ! i)) of
           Inl e \<Rightarrow> Inl e
         | Inr h \<Rightarrow> combineFrom env p (i + 1) h)
      else Inr running)"
  by pat_completeness auto
termination
  by (relation "measure (\<lambda>(env, p, i, running). length (elements p) - i)") auto

declare combineFrom.simps [simp del]

definition validateProof_spec :: "primitives \<Rightarrow> MerkleProof \<Rightarrow> error + bool" where
  "validateProof_spec env p =
     (case combineFrom env p 0 (element p) of
        Inl e \<Rightarrow> Inl e
      | Inr final \<Rightarrow> (case root p of None \<Rightarrow> Inl TypeError | Some r \<Rightarrow> Inr (final = r)))"

subsection \<open>A small instance of the primitives\<close>

text \<open>
  Concrete stand-ins for the imported primitives, to run the model on examples: a
  one-byte checksum for the hash, the big-endian value for \<open>arrayToBigInt\<close>, lower-case
  hexadecimal for \<open>bytesToHex\<close>. Every width is one byte: \<open>bigIntToArray\<close> gives the low
  byte of the integer, and \<open>arrayToByteLength\<close> re-encodes the integer value of the array
  (a one-byte array is left as it is).
\<close>

definition hexDigit :: "nat \<Rightarrow> char" where
  "hexDigit n = (if n < 10 then char_of (48 + n) else char_of (87 + n))"

definition unhexDigit :: "char \<Rightarrow> nat" where
  "unhexDigit c = (if of_char c < (97::nat) then of_char c - 48 else of_char c - 87)"

definition sampleHex :: "bytes \<Rightarrow> string" where
  "sampleHex bs = concat (map (\<lambda>w. [hexDigit (unat w div 16), hexDigit (unat w mod 16)]) bs)"

definition sampleBig :: "bytes \<Rightarrow> int" where
  "sampleBig bs = foldl (\<lambda>a w. 256 * a + uint w) 0 bs"

definition samplePoseidon :: "bytes list \<Rightarrow> bytes" where
  "samplePoseidon xs = [foldl (\<lambda>a w. 6 * a + w + 1) 7 (concat xs)]"

definition sample :: primitives where
  "sample = \<lparr>poseidonFunc = samplePoseidon,
             arrayToByteLength = (\<lambda>x n. [word_of_int (sampleBig x)]),
             arrayToBigInt = sampleBig,
             bigIntToArray = (\<lambda>n len. [word_of_int n]),
             bytesToHex = sampleHex,
             ZERO_HASH_BIGINT = 252\<rparr>"

text \<open>A tree of depth 1 over the sample primitives, given by its two levels.\<close>

definition sampleTree :: "slot list \<Rightarrow> slot list \<Rightarrow> MerkleTree" where
  "sampleTree leaves rootLevel =
     \<lparr>treeNumber = 0, depth = 1, zeros = [[252]], tree = [Some leaves, Some rootLevel],
       treeNullifiers = []\<rparr>"


text \<open>Pools of depth 1; the pool and the manager that the constructors build for depth 1.\<close>

definition poolOf :: "MerkleTree list \<Rightarrow> nat \<Rightarrow> MerkleHelper" where
  "poolOf ts i = \<lparr>trees = ts, currentTreeIndex = i, maxLeaves = 2, treeDepth = 1\<rparr>"

definition samplePool :: MerkleHelper where
  "samplePool = poolOf [sampleTree [] [Some [231]]] 0"

definition sampleManager :: MerkleManager where
  "sampleManager = \<lparr>utxo = samplePool, txid = samplePool, nullifiers = {}\<rparr>"

subsection \<open>The worked example of the test suite (test/index.test.ts)\<close>

text \<open>
  The test \<open>should update merkle tree correctly\<close>: a tree from \<open>createTree(0, 16)\<close>, six
  one-byte leaves inserted at position 0, \<open>rebuildSparseTree\<close>, then the proof of the
  leaf \<open>0x10\<close>.
\<close>

definition exampleLeaves :: "bytes list" where
  "exampleLeaves = [[0x02], [0x04], [0x08], [0x10], [0x20], [0x40]]"

definition exampleProof :: "primitives \<Rightarrow> error + MerkleProof" where
  "exampleProof env =
     (case createTree env 0 16 None of
        Inl e \<Rightarrow> Inl e
      | Inr t0 \<Rightarrow>
          (case MerkleTree_insertLeaves t0 exampleLeaves 0 of
             (Inl e, t1) \<Rightarrow> Inl e
           | (Inr u, t1) \<Rightarrow>
               (case rebuildSparseTree env t1 of
                  (Inl e, t) \<Rightarrow> Inl e
                | (Inr u, t) \<Rightarrow> MerkleTree_generateProof env t [0x10])))"

section \<open>Properties of the tree\<close>

subsection \<open>The inner loop of the rebuild\<close>

lemma hashPairs_append:
  "hashPairs env z xs (a @ b) = (case hashPairs env z xs b of (res, ys) \<Rightarrow> (res, a @ ys))"
  by (induction env z xs b rule: hashPairs.induct) (auto split: sum.splits prod.splits)

lemma hashPairs_Cons:
  "hashPairs env z xs [y] = (case hashPairs env z xs [] of (res, ys) \<Rightarrow> (res, y # ys))"
  using hashPairs_append [of env z xs "[y]" "[]"] by simp

lemma hashPairs_length:
  "hashPairs env z xs [] = (Inr u, ys) \<Longrightarrow> length ys = (length xs + 1) div 2"
proof (induction xs arbitrary: ys rule: induct_list012)
  case 1
  then show ?case by simp
next
  case (2 l)
  then show ?case by (auto split: sum.splits)
next
  case (3 l r rest)
  then show ?case
    by (auto simp: hashPairs_Cons split: sum.splits prod.splits)
qed

lemma hashPairs_nth:
  "hashPairs env z xs [] = (Inr u, ys) \<Longrightarrow> 2 * i < length xs \<Longrightarrow>
   \<exists>h. hashSlots env (xs ! (2 * i)) (nullish (at xs (2 * i + 1)) z) = Inr h \<and> ys ! i = Some h"
proof (induction xs arbitrary: ys i rule: induct_list012)
  case 1
  then show ?case by simp
next
  case (2 l)
  then show ?case by (auto simp: at_def split: sum.splits)
next
  case (3 l r rest)
  from 3(3) obtain h zs where h: "hashSlots env l (nullish r z) = Inr h"
    and zs: "hashPairs env z rest [] = (Inr u, zs)" and ys: "ys = Some h # zs"
    by (auto simp: hashPairs_Cons split: sum.splits prod.splits)
  show ?case
  proof (cases i)
    case 0
    with h ys show ?thesis by (simp add: at_def)
  next
    case (Suc j)
    with 3(4) have j: "2 * j < length rest" by simp
    from 3(1)[OF zs j] Suc ys show ?thesis by (auto simp: at_def)
  qed
qed

lemma hashPairs_all_Some:
  "hashPairs env z xs [] = (Inr u, ys) \<Longrightarrow> None \<notin> set ys"
proof (induction xs arbitrary: ys rule: induct_list012)
  case 1
  then show ?case by simp
next
  case (2 l)
  then show ?case by (auto split: sum.splits)
next
  case (3 l r rest)
  then show ?case
    by (auto simp: hashPairs_Cons split: sum.splits prod.splits)
qed

subsection \<open>Levels that exist\<close>

lemma at_assign: "at (assign xs i v) j = (if j = i then Some v else at xs j)"
  by (auto simp: at_def assign_def nth_append)

lemma at_level: "at (tree t) k = Some l \<Longrightarrow> level t k = l"
  by (simp add: level_def)

lemma has_level: "has t k \<Longrightarrow> at (tree t) k = Some (level t k)"
  by (auto simp: has_def level_def)

lemma level_has: "x \<in> set (level t k) \<Longrightarrow> has t k"
  by (cases "at (tree t) k") (auto simp: level_def has_def)

lemma length_level_has: "i < length (level t k) \<Longrightarrow> has t k"
  by (cases "at (tree t) k") (auto simp: level_def has_def)

lemma dense_has:
  assumes "None \<notin> set (tree t)" and "k < length (tree t)"
  shows "has t k"
proof -
  from assms(2) have "tree t ! k \<in> set (tree t)" by (rule nth_mem)
  with assms(1) have "tree t ! k \<noteq> None" by metis
  with assms(2) show ?thesis by (simp add: has_def at_def)
qed

text \<open>Fields that a rebuild never touches, and the levels it leaves alone.\<close>

lemma rebuildLevels_fields:
  "rebuildLevels env n lv t = (res, t') \<Longrightarrow>
   depth t' = depth t \<and> zeros t' = zeros t \<and> treeNumber t' = treeNumber t
   \<and> treeNullifiers t' = treeNullifiers t"
proof (induction env n lv t arbitrary: res t' rule: rebuildLevels.induct)
  case (1 env lv t)
  then show ?case by simp
next
  case (2 env n lv t)
  show ?case
  proof (cases "at (tree t) lv")
    case None
    with 2(2) show ?thesis by auto
  next
    case (Some l)
    obtain r out where ho: "hashPairs env (zeroAt t lv) l [] = (r, out)" by fastforce
    let ?t1 = "t\<lparr>tree := assign (tree t) (lv + 1) out\<rparr>"
    show ?thesis
    proof (cases r)
      case (Inl e)
      with 2(2) Some ho have "t' = ?t1" by simp
      then show ?thesis by simp
    next
      case (Inr u)
      with 2(2) Some ho have rec: "rebuildLevels env n (lv + 1) ?t1 = (res, t')" by simp
      from 2(1)[OF Some ho[symmetric] Inr rec] show ?thesis by simp
    qed
  qed
qed

lemma rebuildLevels_below:
  "rebuildLevels env n lv t = (res, t') \<Longrightarrow> j \<le> lv \<Longrightarrow> at (tree t') j = at (tree t) j"
proof (induction env n lv t arbitrary: res t' rule: rebuildLevels.induct)
  case (1 env lv t)
  then show ?case by simp
next
  case (2 env n lv t)
  show ?case
  proof (cases "at (tree t) lv")
    case None
    with 2(2) have "t' = t\<lparr>tree := assign (tree t) (lv + 1) []\<rparr>" by auto
    with 2(3) show ?thesis by (simp add: at_assign)
  next
    case (Some l)
    obtain r out where ho: "hashPairs env (zeroAt t lv) l [] = (r, out)" by fastforce
    let ?t1 = "t\<lparr>tree := assign (tree t) (lv + 1) out\<rparr>"
    from 2(3) have same1: "at (tree ?t1) j = at (tree t) j" by (simp add: at_assign)
    show ?thesis
    proof (cases r)
      case (Inl e)
      with 2(2) Some ho have "t' = ?t1" by simp
      with same1 show ?thesis by simp
    next
      case (Inr u)
      with 2(2) Some ho have rec: "rebuildLevels env n (lv + 1) ?t1 = (res, t')" by simp
      from 2(3) have "j \<le> lv + 1" by simp
      from 2(1)[OF Some ho[symmetric] Inr rec this] same1 show ?thesis by simp
    qed
  qed
qed

lemma zeroAt_cong: "zeros t' = zeros t \<Longrightarrow> zeroAt t' k = zeroAt t k"
  by (simp add: zeroAt_def)

lemma rebuildLevels_linked:
  "rebuildLevels env n lv t = (Inr u, t') \<Longrightarrow> lv \<le> k \<Longrightarrow> k < lv + n \<Longrightarrow> linked env t' k"
proof (induction env n lv t arbitrary: t' rule: rebuildLevels.induct)
  case (1 env lv t)
  then show ?case by simp
next
  case (2 env n lv t)
  from 2(2) obtain l where Some: "at (tree t) lv = Some l" by (cases "at (tree t) lv") auto
  obtain r out where ho: "hashPairs env (zeroAt t lv) l [] = (r, out)" by fastforce
  let ?t1 = "t\<lparr>tree := assign (tree t) (lv + 1) out\<rparr>"
  from 2(2) Some ho obtain u' where r: "r = Inr u'"
    by (cases r) auto
  with 2(2) Some ho have rec: "rebuildLevels env n (lv + 1) ?t1 = (Inr u, t')" by simp
  show ?case
  proof (cases "k = lv")
    case False
    with 2(3,4) have "lv + 1 \<le> k" "k < lv + 1 + n" by simp_all
    from 2(1)[OF Some ho[symmetric] r rec this] show ?thesis .
  next
    case k: True
    have n1: "at (tree ?t1) lv = Some l" using Some by (simp add: at_assign)
    have n2: "at (tree ?t1) (lv + 1) = Some out" by (simp add: at_assign)
    from rebuildLevels_below[OF rec, of lv] n1 have e1: "at (tree t') lv = Some l" by simp
    from rebuildLevels_below[OF rec, of "lv + 1"] n2 have e2: "at (tree t') (lv + 1) = Some out"
      by simp
    from rebuildLevels_fields[OF rec] have z: "zeroAt t' lv = zeroAt t lv"
      by (simp add: zeroAt_def)
    from e1 e2 have "has t' lv" "has t' (lv + 1)" by (simp_all add: has_def)
    moreover have "hashPairs env (zeroAt t' lv) (level t' lv) [] = (Inr (), level t' (lv + 1))"
      using ho r at_level[OF e1] at_level[OF e2] z by simp
    ultimately show ?thesis using k by (simp add: linked_def)
  qed
qed

lemma rebuildSparseTree_fields:
  "rebuildSparseTree env t = (res, t') \<Longrightarrow> depth t' = depth t \<and> zeros t' = zeros t"
  using rebuildLevels_fields[of env "depth t" 0 t res t'] by (simp add: rebuildSparseTree_def)

lemma rebuildSparseTree_rebuilt:
  assumes "rebuildSparseTree env t = (Inr u, t')" and "has t 0"
  shows "rebuilt env t'" and "depth t' = depth t" and "zeros t' = zeros t"
    and "level t' 0 = level t 0"
proof -
  from assms(1) have r: "rebuildLevels env (depth t) 0 t = (Inr u, t')"
    by (simp add: rebuildSparseTree_def)
  from rebuildLevels_fields[OF r] show d: "depth t' = depth t" and "zeros t' = zeros t" by simp_all
  from rebuildLevels_below[OF r, of 0] have a0: "at (tree t') 0 = at (tree t) 0" by simp
  then show "level t' 0 = level t 0" by (simp add: level_def)
  from a0 assms(2) have "has t' 0" by (simp add: has_def)
  moreover have "\<forall>k < depth t'. linked env t' k"
    using rebuildLevels_linked[OF r] d by simp
  ultimately show "rebuilt env t'" by (simp add: rebuilt_def)
qed

subsection \<open>Walking a rebuilt tree\<close>

lemma and_pow_pos_iff: "((a::int) AND 2 ^ i) > 0 \<longleftrightarrow> bit a i"
proof -
  have "0 \<le> a AND 2 ^ i" by (simp add: and_nonnegative_int_iff)
  moreover have "a AND 2 ^ i = 0 \<longleftrightarrow> \<not> bit a i" by (rule and_exp_eq_0_iff_not_bit)
  ultimately show ?thesis by linarith
qed

lemma hashSlots_Inr:
  "hashSlots env l r = Inr h \<Longrightarrow> \<exists>a b. l = Some a \<and> r = Some b \<and> h = hashLeftRight env a b"
  by (auto simp: hashSlots_def split: option.splits)

lemma walk_valid:
  assumes lk: "\<forall>k<depth t. linked env t k"
  shows "k + n = depth t \<Longrightarrow> idx < length (level t k) \<Longrightarrow> level t k ! idx = Some v \<Longrightarrow>
     \<exists>es w. proofWalk t n k idx = Inr es \<and> None \<notin> set es \<and> length es = n
       \<and> idx div 2 ^ n < length (level t (k + n))
       \<and> level t (k + n) ! (idx div 2 ^ n) = Some w
       \<and> (\<forall>ind. (\<forall>j<n. bit ind (k + j) = odd (idx div 2 ^ j)) \<longrightarrow> reduceProof env ind k v es = Inr w)"
proof (induction n arbitrary: k idx v)
  case 0
  then show ?case by simp
next
  case (Suc n)
  let ?L = "level t k"
  let ?z = "zeroAt t k"
  let ?i = "idx div 2"
  from Suc.prems(1) have "k < depth t" by simp
  with lk have "linked env t k" by blast
  then have hk: "has t k"
    and hp: "hashPairs env ?z ?L [] = (Inr (), level t (k + 1))"
    by (simp_all add: linked_def)
  have i2: "2 * ?i < length ?L" using Suc.prems(2) by linarith
  from hashPairs_nth[OF hp i2] obtain h where
    hs: "hashSlots env (?L ! (2 * ?i)) (nullish (at ?L (2 * ?i + 1)) ?z) = Inr h"
    and up: "level t (k + 1) ! ?i = Some h" by blast
  have ilen: "?i < length (level t (k + 1))"
    using hashPairs_length[OF hp] Suc.prems(2) by linarith
  from Suc.prems(1) have kn: "(k + 1) + n = depth t" by simp
  from Suc.IH[OF kn ilen up] obtain es w where
    pw: "proofWalk t n (k + 1) ?i = Inr es" and ns: "None \<notin> set es" and le: "length es = n"
    and wl: "?i div 2 ^ n < length (level t (k + 1 + n))"
    and ww: "level t (k + 1 + n) ! (?i div 2 ^ n) = Some w"
    and rp: "\<forall>ind. (\<forall>j<n. bit ind (k + 1 + j) = odd (?i div 2 ^ j)) \<longrightarrow> reduceProof env ind (k + 1) h es = Inr w"
    by blast
  have dd: "idx div 2 ^ Suc n = ?i div 2 ^ n"
    by (simp add: div_mult2_eq)
  have walk: "proofWalk t (Suc n) k idx = Inr (sibling t k idx # es)"
    using has_level[OF hk] pw by simp
  have sib: "\<exists>s. sibling t k idx = Some s \<and>
      (if odd idx then hashSlots env (Some s) (Some v) else hashSlots env (Some v) (Some s)) = Inr h"
  proof (cases "even idx")
    case True
    then have e: "2 * ?i = idx" by simp
    with hs Suc.prems(3) have "hashSlots env (Some v) (nullish (at ?L (idx + 1)) ?z) = Inr h" by simp
    moreover from True have "sibling t k idx = nullish (at ?L (idx + 1)) ?z"
      by (simp add: sibling_def)
    ultimately show ?thesis using True hashSlots_Inr by fastforce
  next
    case False
    then have e: "2 * ?i + 1 = idx" by presburger
    then have e': "2 * ?i = idx - 1" by linarith
    from e Suc.prems(2,3) have "at ?L (2 * ?i + 1) = Some v" by (simp add: at_def)
    with hs e' have h2: "hashSlots env (?L ! (idx - 1)) (Some v) = Inr h" by (simp add: nullish_def)
    from Suc.prems(2) have "idx - 1 < length ?L" by linarith
    with False have "sibling t k idx = ?L ! (idx - 1)"
      by (simp add: sibling_def at_def odd_iff_mod_2_eq_one)
    with h2 False show ?thesis using hashSlots_Inr by fastforce
  qed
  then obtain s where s1: "sibling t k idx = Some s"
    and s2: "(if odd idx then hashSlots env (Some s) (Some v) else hashSlots env (Some v) (Some s)) = Inr h"
    by blast
  have red: "reduceProof env ind k v (sibling t k idx # es) = Inr w"
    if b: "\<forall>j<Suc n. bit ind (k + j) = odd (idx div 2 ^ j)" for ind
  proof -
    from b have b0: "bit ind k = odd idx" by force
    have "\<forall>j<n. bit ind (k + 1 + j) = odd (?i div 2 ^ j)"
    proof (intro allI impI)
      fix j assume "j < n"
      then have "bit ind (k + Suc j) = odd (idx div 2 ^ Suc j)" using b by blast
      then show "bit ind (k + 1 + j) = odd (?i div 2 ^ j)" by (simp add: div_mult2_eq)
    qed
    with rp have "reduceProof env ind (k + 1) h es = Inr w" by blast
    then show ?thesis using s1 s2 b0 by (simp add: and_pow_pos_iff)
  qed
  from ns s1 have "None \<notin> set (sibling t k idx # es)" by simp
  moreover have "length (sibling t k idx # es) = Suc n" using le by simp
  moreover have "idx div 2 ^ Suc n < length (level t (k + Suc n))" using wl dd by simp
  moreover have "level t (k + Suc n) ! (idx div 2 ^ Suc n) = Some w" using ww dd by simp
  ultimately show ?case using walk red by blast
qed

text \<open>
  On a table with no level at all the rebuild fails at its first read, after the
  assignment that has made the table a hole followed by the empty level 1.
\<close>

lemma rebuild_without_levels:
  assumes "tree t = []" and "0 < depth t"
  shows "rebuildSparseTree env t = (Inl TypeError, t\<lparr>tree := [None, Some []]\<rparr>)"
proof -
  from assms(2) obtain n where "depth t = Suc n" by (cases "depth t") auto
  with assms(1) show ?thesis by (simp add: rebuildSparseTree_def at_def assign_def)
qed

text \<open>A rebuild never writes level 0, so it neither makes nor removes the leaf level.\<close>

lemma rebuildSparseTree_leaf_level:
  "rebuildSparseTree env t = (res, t') \<Longrightarrow> at (tree t') 0 = at (tree t) 0"
  using rebuildLevels_below[of env "depth t" 0 t res t' 0] by (simp add: rebuildSparseTree_def)

lemma rebuildSparseTree_nonempty:
  "rebuildSparseTree env t = (res, t') \<Longrightarrow> has t' 0 \<Longrightarrow> has t 0"
  using rebuildSparseTree_leaf_level[of env t res t'] by (simp add: has_def)

lemma indexOfBig_Some:
  "indexOfBig env xs v i = Some r \<Longrightarrow>
   \<exists>j b. r = i + j \<and> j < length xs \<and> xs ! j = Some b \<and> arrayToBigInt env b = v"
proof (induction xs arbitrary: i)
  case Nil
  then show ?case by simp
next
  case (Cons x xs)
  show ?case
  proof (cases "\<exists>b. x = Some b \<and> arrayToBigInt env b = v")
    case True
    with Cons.prems show ?thesis by (intro exI[of _ 0]) auto
  next
    case False
    with Cons.prems have "indexOfBig env xs v (i + 1) = Some r"
      by (auto split: option.splits if_splits)
    from Cons.IH[OF this] obtain j b where
      "r = i + 1 + j" "j < length xs" "xs ! j = Some b" "arrayToBigInt env b = v" by blast
    then show ?thesis by (intro exI[of _ "Suc j"]) auto
  qed
qed

lemma indexOfBig_None:
  "indexOfBig env xs v i = None \<Longrightarrow> Some b \<in> set xs \<Longrightarrow> arrayToBigInt env b \<noteq> v"
  by (induction xs arbitrary: i) (auto split: option.splits if_splits)

lemma root_rebuilt:
  assumes "rebuilt env t"
  shows "MerkleTree_root t = Inr (at (level t (depth t)) 0)"
proof -
  have "has t (depth t)"
  proof (cases "depth t")
    case 0
    with assms show ?thesis by (simp add: rebuilt_def)
  next
    case (Suc d)
    with assms have "linked env t d" by (simp add: rebuilt_def)
    with Suc show ?thesis by (simp add: linked_def)
  qed
  from has_level[OF this] show ?thesis by (simp add: MerkleTree_root_def)
qed

lemma bit_int_nat: "bit (int i) j = odd (i div 2 ^ j)"
proof -
  have "bit (int i) j = bit i j" by (rule bit_of_nat_iff_bit)
  then show ?thesis by (simp add: bit_iff_odd)
qed

lemma generateProof_found:
  assumes rb: "rebuilt env t"
    and ix: "indexOfBig env (level t 0) (arrayToBigInt env el) 0 = Some i"
  shows "\<exists>b w es. i < length (level t 0) \<and> level t 0 ! i = Some b
           \<and> arrayToBigInt env b = arrayToBigInt env el
           \<and> MerkleTree_generateProof env t el =
               Inr \<lparr>element = el, elements = es, indices = int i, root = at (level t (depth t)) 0\<rparr>
           \<and> None \<notin> set es \<and> length es = depth t
           \<and> i div 2 ^ depth t < length (level t (depth t))
           \<and> level t (depth t) ! (i div 2 ^ depth t) = Some w
           \<and> reduceProof env (int i) 0 b es = Inr w"
proof -
  from rb have ne: "has t 0" and lk: "\<forall>k<depth t. linked env t k"
    by (simp_all add: rebuilt_def)
  from indexOfBig_Some[OF ix] obtain b where il: "i < length (level t 0)"
    and ib: "level t 0 ! i = Some b" and bb: "arrayToBigInt env b = arrayToBigInt env el"
    by auto
  from walk_valid[OF lk, of 0 "depth t" i b] il ib obtain es w where
    pw: "proofWalk t (depth t) 0 i = Inr es" and ns: "None \<notin> set es" and le: "length es = depth t"
    and wl: "i div 2 ^ depth t < length (level t (depth t))"
    and ww: "level t (depth t) ! (i div 2 ^ depth t) = Some w"
    and rp: "\<forall>ind. (\<forall>j<depth t. bit ind (0 + j) = odd (i div 2 ^ j)) \<longrightarrow> reduceProof env ind 0 b es = Inr w"
    by auto
  have "\<forall>j<depth t. bit (int i) (0 + j) = odd (i div 2 ^ j)"
    by (simp add: bit_int_nat)
  with rp have red: "reduceProof env (int i) 0 b es = Inr w" by blast
  from has_level[OF ne] ix pw root_rebuilt[OF rb]
  have "MerkleTree_generateProof env t el =
      Inr \<lparr>element = el, elements = es, indices = int i, root = at (level t (depth t)) 0\<rparr>"
    by (simp add: MerkleTree_generateProof_def)
  with il ib bb ns le wl ww red show ?thesis by blast
qed


subsection \<open>Validation against its specification\<close>

lemma reduceProof_combineFrom:
  "es = drop i (elements p) \<Longrightarrow>
   reduceProof env (indices p) i cur es = combineFrom env p i cur"
proof (induction es arbitrary: i cur)
  case Nil
  then have "\<not> i < length (elements p)" by simp
  then show ?case by (simp add: combineFrom.simps [of env p i cur])
next
  case (Cons e es)
  then have il: "i < length (elements p)" by (metis drop_eq_Nil2 list.distinct(1) not_le)
  with Cons.prems have e: "e = elements p ! i" and es: "es = drop (i + 1) (elements p)"
    by (simp_all add: Cons_nth_drop_Suc [symmetric])
  let ?S = "if bit (indices p) i then hashSlots env e (Some cur) else hashSlots env (Some cur) e"
  have lhs: "reduceProof env (indices p) i cur (e # es) =
      (case ?S of Inl err \<Rightarrow> Inl err | Inr h \<Rightarrow> reduceProof env (indices p) (i + 1) h es)"
    by (simp add: and_pow_pos_iff)
  have rhs: "combineFrom env p i cur =
      (case ?S of Inl err \<Rightarrow> Inl err | Inr h \<Rightarrow> combineFrom env p (i + 1) h)"
    using il e by (subst combineFrom.simps) simp
  show ?case
  proof (cases ?S)
    case (Inl err)
    with lhs rhs show ?thesis by simp
  next
    case (Inr h)
    with lhs rhs Cons.IH[OF es, of h] show ?thesis by simp
  qed
qed

text \<open>The sample hexadecimal encoding is injective, digit by digit.\<close>

lemma unhex_hexDigit: "i < 16 \<Longrightarrow> unhexDigit (hexDigit i) = i"
  by (simp add: hexDigit_def unhexDigit_def)

lemma hexByte_inj:
  fixes w v :: "8 word"
  assumes "[hexDigit (unat w div 16), hexDigit (unat w mod 16)] = [hexDigit (unat v div 16), hexDigit (unat v mod 16)]"
  shows "w = v"
proof -
  have bw: "unat w div 16 < 16" "unat w mod 16 < 16" "unat v div 16 < 16" "unat v mod 16 < 16"
    using unsigned_less[of w, where 'a = nat] unsigned_less[of v, where 'a = nat] by simp_all
  from assms have "hexDigit (unat w div 16) = hexDigit (unat v div 16)"
    and "hexDigit (unat w mod 16) = hexDigit (unat v mod 16)" by simp_all
  then have "unhexDigit (hexDigit (unat w div 16)) = unhexDigit (hexDigit (unat v div 16))"
    and "unhexDigit (hexDigit (unat w mod 16)) = unhexDigit (hexDigit (unat v mod 16))" by simp_all
  with bw have "unat w div 16 = unat v div 16" "unat w mod 16 = unat v mod 16"
    by (simp_all add: unhex_hexDigit)
  then have "unat w = unat v" by (metis div_mult_mod_eq)
  then show ?thesis by (rule word_unat_eq_iff [THEN iffD2])
qed

lemma sampleHex_inj: "sampleHex xs = sampleHex ys \<Longrightarrow> xs = ys"
proof (induction xs arbitrary: ys)
  case Nil
  then show ?case by (cases ys) (simp_all add: sampleHex_def)
next
  case (Cons x xs)
  then obtain y ys' where ys: "ys = y # ys'" by (cases ys) (auto simp: sampleHex_def)
  with Cons.prems have h: "[hexDigit (unat x div 16), hexDigit (unat x mod 16)] = [hexDigit (unat y div 16), hexDigit (unat y mod 16)]"
    and t: "sampleHex xs = sampleHex ys'"
    by (simp_all add: sampleHex_def)
  from hexByte_inj[OF h] Cons.IH[OF t] ys show ?case by simp
qed

lemma inj_sample_bytesToHex: "inj (bytesToHex sample)"
  by (rule injI) (simp add: sample_def sampleHex_inj)

lemmas sample_simps = sample_def samplePoseidon_def sampleBig_def sampleHex_def hexDigit_def
  hashLeftRight_def hashSlots_def zeroValue_def getZeroValueLevels_def

lemmas eval_simps = sample_simps sampleTree_def createTree_def rebuildSparseTree_def zeroAt_def
  nullish_def at_def level_def MerkleTree_generateProof_def MerkleTree_root_def
  sibling_def validateProof_def MerkleTree_insertLeaves_def assign_def

text \<open>The first step of the fold sees its start value only at 32 bytes.\<close>

lemma reduceProof_same_width:
  assumes "arrayToByteLength env a 32 = arrayToByteLength env b 32" and "es \<noteq> []"
  shows "reduceProof env ind i a es = reduceProof env ind i b es"
proof -
  from assms(2) obtain e es' where es: "es = e # es'" by (cases es) auto
  from assms(1) have "hashSlots env e (Some a) = hashSlots env e (Some b)"
    and "hashSlots env (Some a) e = hashSlots env (Some b) e"
    by (simp_all add: hashSlots_def hashLeftRight_def split: option.splits)
  then show ?thesis by (simp add: es)
qed

section \<open>Properties of the pool\<close>

subsection \<open>Insertion at the end and rebuilds that cannot fail\<close>

lemma writeLeaves_end: "writeLeaves xs (length xs) ls = xs @ map Some ls"
proof (induction ls arbitrary: xs)
  case Nil
  then show ?case by simp
next
  case (Cons l ls)
  have "assign xs (length xs) l = xs @ [Some l]" by (simp add: assign_def)
  moreover have "writeLeaves (xs @ [Some l]) (length (xs @ [Some l])) ls = (xs @ [Some l]) @ map Some ls"
    by (rule Cons.IH)
  ultimately show ?case by simp
qed

lemma insertLeaves_end:
  assumes "has t 0"
  shows "MerkleTree_insertLeaves t ls (length (level t 0)) =
           (Inr (), t\<lparr>tree := (tree t)[0 := Some (level t 0 @ map Some ls)]\<rparr>)"
proof (cases "ls = []")
  case True
  from has_level[OF assms] have "0 < length (tree t)" and "tree t ! 0 = Some (level t 0)"
    by (auto simp: at_def split: if_splits)
  then have "(tree t)[0 := Some (level t 0)] = tree t" by (metis list_update_id)
  with True show ?thesis by (simp add: MerkleTree_insertLeaves_def)
next
  case False
  with has_level[OF assms] show ?thesis by (simp add: MerkleTree_insertLeaves_def writeLeaves_end)
qed

lemma hashSlots_Some: "hashSlots env (Some a) (Some b) = Inr (hashLeftRight env a b)"
  by (simp add: hashSlots_def)

lemma hashPairs_total:
  "None \<notin> set xs \<Longrightarrow> z \<noteq> None \<Longrightarrow> \<exists>ys. hashPairs env z xs [] = (Inr (), ys)"
proof (induction xs rule: induct_list012)
  case 1
  then show ?case by simp
next
  case (2 l)
  then obtain a b where "l = Some a" "z = Some b" by (cases l; cases z) auto
  then show ?case by (simp add: hashSlots_Some nullish_def)
next
  case (3 l r rest)
  then obtain ys where ys: "hashPairs env z rest [] = (Inr (), ys)" by auto
  from 3(3) obtain a b where "l = Some a" "r = Some b" by (cases l; cases r) auto
  with ys show ?case by (simp add: hashSlots_Some nullish_def hashPairs_Cons)
qed

lemma rebuildLevels_total:
  "lv + n \<le> length (zeros t) \<Longrightarrow> has t lv \<Longrightarrow> None \<notin> set (level t lv) \<Longrightarrow>
   \<exists>t'. rebuildLevels env n lv t = (Inr (), t')"
proof (induction n arbitrary: lv t)
  case 0
  then show ?case by simp
next
  case (Suc n)
  from Suc.prems(1) have z: "zeroAt t lv \<noteq> None" by (simp add: zeroAt_def)
  from hashPairs_total[OF Suc.prems(3) z] obtain out where
    ho: "hashPairs env (zeroAt t lv) (level t lv) [] = (Inr (), out)" by blast
  let ?t1 = "t\<lparr>tree := assign (tree t) (lv + 1) out\<rparr>"
  have a: "(lv + 1) + n \<le> length (zeros ?t1)" using Suc.prems(1) by simp
  have e: "at (tree ?t1) (lv + 1) = Some out" by (simp add: at_assign)
  then have b: "has ?t1 (lv + 1)" by (simp add: has_def)
  from at_level[OF e] hashPairs_all_Some[OF ho] have c: "None \<notin> set (level ?t1 (lv + 1))" by simp
  from Suc.IH[OF a b c] obtain t' where "rebuildLevels env n (lv + 1) ?t1 = (Inr (), t')" by blast
  with ho has_level[OF Suc.prems(2)] show ?case by simp
qed

text \<open>A rebuild of a table that has all its levels writes inside it.\<close>

lemma assign_inside:
  "i < length xs \<Longrightarrow> length (assign xs i v) = length xs \<and>
     (None \<notin> set xs \<longrightarrow> None \<notin> set (assign xs i v))"
proof -
  assume i: "i < length xs"
  then have eq: "assign xs i v = xs[i := Some v]" by (simp add: assign_def)
  have "set (xs[i := Some v]) \<subseteq> insert (Some v) (set xs)" by (rule set_update_subset_insert)
  with eq show ?thesis by auto
qed

lemma rebuildLevels_length:
  "rebuildLevels env n lv t = (res, t') \<Longrightarrow> lv + n < length (tree t) \<Longrightarrow>
   length (tree t') = length (tree t) \<and> (None \<notin> set (tree t) \<longrightarrow> None \<notin> set (tree t'))"
proof (induction env n lv t arbitrary: res t' rule: rebuildLevels.induct)
  case (1 env lv t)
  then show ?case by simp
next
  case (2 env n lv t)
  from 2(3) have inside: "lv + 1 < length (tree t)" by simp
  show ?case
  proof (cases "at (tree t) lv")
    case None
    with 2(2) have "t' = t\<lparr>tree := assign (tree t) (lv + 1) []\<rparr>" by auto
    with assign_inside[OF inside] show ?thesis by simp
  next
    case (Some l)
    obtain r out where ho: "hashPairs env (zeroAt t lv) l [] = (r, out)" by fastforce
    let ?t1 = "t\<lparr>tree := assign (tree t) (lv + 1) out\<rparr>"
    from assign_inside[OF inside, of "out"]
    have l1: "length (tree ?t1) = length (tree t)"
      and d1: "None \<notin> set (tree t) \<longrightarrow> None \<notin> set (tree ?t1)" by simp_all
    show ?thesis
    proof (cases r)
      case (Inl e)
      with 2(2) Some ho have "t' = ?t1" by simp
      with l1 d1 show ?thesis by simp
    next
      case (Inr u)
      with 2(2) Some ho have rec: "rebuildLevels env n (lv + 1) ?t1 = (res, t')" by simp
      from 2(3) l1 have "lv + 1 + n < length (tree ?t1)" by simp
      from 2(1)[OF Some ho[symmetric] Inr rec this] l1 d1 show ?thesis by simp
    qed
  qed
qed

lemma level_update0:
  assumes "has t 0"
  shows "level (t\<lparr>tree := (tree t)[0 := Some l]\<rparr>) 0 = l"
proof -
  from assms have "0 < length (tree t)" by (auto simp: has_def at_def split: if_splits)
  then show ?thesis by (simp add: level_def at_def)
qed

lemma treeOK_has: "treeOK d t \<Longrightarrow> k \<le> d \<Longrightarrow> has t k"
  by (rule dense_has) (simp_all add: treeOK_def)

lemma rebuild_treeOK:
  assumes "treeOK d t"
  shows "\<exists>t'. rebuildSparseTree env t = (Inr (), t') \<and> treeOK d t' \<and> level t' 0 = level t 0
           \<and> rebuilt env t'"
proof -
  from assms have d: "depth t = d" and lt: "length (tree t) = d + 1" and lz: "length (zeros t) = d"
    and dn: "None \<notin> set (tree t)"
    and nn: "None \<notin> set (level t 0)" by (simp_all add: treeOK_def)
  from treeOK_has[OF assms] have ne: "has t 0" by simp
  from rebuildLevels_total[of 0 "depth t" t env] d lz nn ne obtain t' where
    r: "rebuildLevels env (depth t) 0 t = (Inr (), t')" by auto
  then have rs: "rebuildSparseTree env t = (Inr (), t')" by (simp add: rebuildSparseTree_def)
  from rebuildLevels_length[OF r] d lt dn have len: "length (tree t') = d + 1"
    and dn': "None \<notin> set (tree t')" by simp_all
  from rebuildSparseTree_rebuilt[OF rs ne] have rb: "rebuilt env t'" and d': "depth t' = depth t"
    and z': "zeros t' = zeros t" and l0: "level t' 0 = level t 0" by simp_all
  from d d' z' lz len l0 nn dn' have "treeOK d t'" by (simp add: treeOK_def)
  with rs l0 rb show ?thesis by blast
qed

subsection \<open>Sizes of the rebuilt levels, new trees\<close>

lemma linked_length:
  "linked env t k \<Longrightarrow> length (level t (k + 1)) = (length (level t k) + 1) div 2"
  by (auto simp: linked_def dest: hashPairs_length)

lemma linked_all_Some: "linked env t k \<Longrightarrow> None \<notin> set (level t (k + 1))"
  by (auto simp: linked_def dest: hashPairs_all_Some)

lemma rebuilt_level_lower:
  "rebuilt env t \<Longrightarrow> k \<le> depth t \<Longrightarrow> 1 \<le> length (level t 0) \<Longrightarrow> 1 \<le> length (level t k)"
proof (induction k)
  case 0
  then show ?case by simp
next
  case (Suc k)
  then have "linked env t k" by (simp add: rebuilt_def)
  from linked_length[OF this] Suc show ?case by simp
qed

lemma rebuilt_level_upper:
  "rebuilt env t \<Longrightarrow> k \<le> depth t \<Longrightarrow> length (level t 0) \<le> 2 ^ depth t \<Longrightarrow>
   length (level t k) \<le> 2 ^ (depth t - k)"
proof (induction k)
  case 0
  then show ?case by simp
next
  case (Suc k)
  then have lk: "linked env t k" and ih: "length (level t k) \<le> 2 ^ (depth t - k)"
    by (simp_all add: rebuilt_def)
  from Suc.prems(2) have "depth t - k = Suc (depth t - Suc k)" by simp
  then have "(2::nat) ^ (depth t - k) = 2 * 2 ^ (depth t - Suc k)" by simp
  with ih have "(length (level t k) + 1) div 2 \<le> 2 ^ (depth t - Suc k)" by simp
  with linked_length[OF lk] show ?case by simp
qed

lemma rebuilt_single_root:
  assumes "rebuilt env t" and "0 < depth t" and "1 \<le> length (level t 0)"
    and "length (level t 0) \<le> 2 ^ depth t"
  shows "\<exists>h. level t (depth t) = [Some h] \<and> MerkleTree_root t = Inr (Some h)"
proof -
  from rebuilt_level_lower[OF assms(1) le_refl assms(3)]
    rebuilt_level_upper[OF assms(1) le_refl assms(4)]
  have len: "length (level t (depth t)) = 1" by simp
  from assms(2) obtain j where j: "depth t = j + 1" by (cases "depth t") auto
  with assms(1) have "linked env t j" by (simp add: rebuilt_def)
  from linked_all_Some[OF this] j have "None \<notin> set (level t (depth t))" by simp
  moreover from len obtain a where "level t (depth t) = [a]"
    by (cases "level t (depth t)") auto
  ultimately obtain h where h: "level t (depth t) = [Some h]"
    by (cases a) auto
  with root_rebuilt[OF assms(1)] have "MerkleTree_root t = Inr (Some h)" by (simp add: at_def)
  with h show ?thesis by blast
qed

lemma length_zeroLevelsLoop: "length (zeroLevelsLoop env n lv ls) = length ls + n"
  by (induction n arbitrary: lv ls) simp_all

lemma length_getZeroValueLevels: "0 < d \<Longrightarrow> length (getZeroValueLevels env d) = d"
  by (simp add: getZeroValueLevels_def length_zeroLevelsLoop)

lemma createTree_seeded:
  "MerkleTree_root ft = Inr (Some r) \<Longrightarrow>
   createTree env n d (Some ft) =
     Inr \<lparr>treeNumber = n, depth = d, zeros = getZeroValueLevels env d,
           tree = replicate d (Some []) @ [Some [Some r]], treeNullifiers = []\<rparr>"
  by (simp add: createTree_def)

lemma createTree_fresh:
  "0 < d \<Longrightarrow>
   createTree env n d None =
     Inr \<lparr>treeNumber = n, depth = d, zeros = getZeroValueLevels env d,
           tree = replicate d (Some []) @ [Some [Some (hashLeftRight env (getZeroValueLevels env d ! (d - 1))
                                            (getZeroValueLevels env d ! (d - 1)))]],
           treeNullifiers = []\<rparr>"
  by (simp add: createTree_def Let_def)

lemma treeOK_new:
  "0 < d \<Longrightarrow> treeOK d \<lparr>treeNumber = n, depth = d, zeros = getZeroValueLevels env d,
           tree = replicate d (Some []) @ [Some [Some r]], treeNullifiers = []\<rparr>"
  by (simp add: treeOK_def length_getZeroValueLevels level_def at_def nth_append)

text \<open>The tree that \<open>createTree\<close> builds: an empty leaf level, and the root it was given.\<close>

lemma new_tree_level0:
  "0 < d \<Longrightarrow>
   has \<lparr>treeNumber = n, depth = d, zeros = zs,
        tree = replicate d (Some []) @ [Some [Some r]], treeNullifiers = []\<rparr> 0
   \<and> level \<lparr>treeNumber = n, depth = d, zeros = zs,
        tree = replicate d (Some []) @ [Some [Some r]], treeNullifiers = []\<rparr> 0 = []"
  by (simp add: has_def level_def at_def nth_append)

lemma new_tree_root:
  "MerkleTree_root \<lparr>treeNumber = n, depth = d, zeros = zs,
        tree = replicate d (Some []) @ [Some [Some r]], treeNullifiers = []\<rparr> = Inr (Some r)"
  by (simp add: MerkleTree_root_def at_def nth_append)

lemma new_tree_insert:
  assumes "0 < d"
  shows "MerkleTree_insertLeaves \<lparr>treeNumber = n, depth = d, zeros = zs,
        tree = replicate d (Some []) @ [Some [Some r]], treeNullifiers = []\<rparr> ls 0 =
     (Inr (), \<lparr>treeNumber = n, depth = d, zeros = zs,
        tree = (replicate d (Some []) @ [Some [Some r]])[0 := Some (map Some ls)],
        treeNullifiers = []\<rparr>)"
proof -
  let ?t = "\<lparr>treeNumber = n, depth = d, zeros = zs,
        tree = replicate d (Some []) @ [Some [Some r]], treeNullifiers = []\<rparr>"
  from new_tree_level0[OF assms, of n zs r] have h: "has ?t 0" and l: "level ?t 0 = []" by simp_all
  from insertLeaves_end[OF h, of ls] l show ?thesis by simp
qed

lemma treeOK_insert_end:
  assumes "treeOK d t"
  shows "treeOK d (t\<lparr>tree := (tree t)[0 := Some (level t 0 @ map Some ls)]\<rparr>)"
proof -
  let ?T = "(tree t)[0 := Some (level t 0 @ map Some ls)]"
  from assms have lt: "length (tree t) = d + 1" and dn: "None \<notin> set (tree t)"
    and nn: "None \<notin> set (level t 0)" by (simp_all add: treeOK_def)
  have "set ?T \<subseteq> insert (Some (level t 0 @ map Some ls)) (set (tree t))"
    by (rule set_update_subset_insert)
  with dn have "None \<notin> set ?T" by auto
  moreover from lt have "at ?T 0 = Some (level t 0 @ map Some ls)" by (simp add: at_def)
  then have "level (t\<lparr>tree := ?T\<rparr>) 0 = level t 0 @ map Some ls" by (simp add: level_def)
  ultimately show ?thesis using assms nn by (simp add: treeOK_def)
qed

subsection \<open>The two ways an insertion applies\<close>

lemma onCurrentTree_eq:
  "currentTreeIndex p < length (trees p) \<Longrightarrow> m (trees p ! currentTreeIndex p) = (r, ct') \<Longrightarrow>
   onCurrentTree m p = (r, p\<lparr>trees := (trees p)[currentTreeIndex p := ct']\<rparr>)"
  by (simp add: onCurrentTree_def currentTree_def)

lemma insertLeaves_spill:
  assumes inv: "pool_inv p"
    and len: "length (level (trees p ! currentTreeIndex p) 0) + k = maxLeaves p"
    and k: "0 < k" "k < length leaves"
  shows "\<exists>t1 r.
      rebuildSparseTree env ((trees p ! currentTreeIndex p)
          \<lparr>tree := (tree (trees p ! currentTreeIndex p))
             [0 := Some (level (trees p ! currentTreeIndex p) 0 @ map Some (take k leaves))]\<rparr>) = (Inr (), t1)
      \<and> treeOK (treeDepth p) t1 \<and> rebuilt env t1
      \<and> level t1 0 = level (trees p ! currentTreeIndex p) 0 @ map Some (take k leaves)
      \<and> MerkleTree_root t1 = Inr (Some r)
      \<and> MerkleHelper_insertLeaves env p leaves
            (int (length (level (trees p ! currentTreeIndex p) 0))) =
          (Inr (length (trees p)),
           p\<lparr>trees := (trees p)[currentTreeIndex p := t1] @
                 [\<lparr>treeNumber = length (trees p), depth = treeDepth p,
                    zeros = getZeroValueLevels env (treeDepth p),
                    tree = (replicate (treeDepth p) (Some []) @ [Some [Some r]])[0 := Some (map Some (drop k leaves))],
                    treeNullifiers = []\<rparr>],
              currentTreeIndex := length (trees p)\<rparr>)"
proof -
  let ?cur = "currentTreeIndex p"
  let ?ct = "trees p ! ?cur"
  let ?d = "treeDepth p"
  let ?n = "length (trees p)"
  let ?len = "length (level ?ct 0)"
  from inv have dpos: "0 < ?d" and cap: "maxLeaves p = 2 ^ ?d" and curlt: "?cur < ?n"
    and ok: "treeOK ?d ?ct" by (simp_all add: pool_inv_def)
  from treeOK_has[OF ok] have ne: "has ?ct 0" by simp
  let ?ct1 = "?ct\<lparr>tree := (tree ?ct)[0 := Some (level ?ct 0 @ map Some (take k leaves))]\<rparr>"
  have ins1: "MerkleTree_insertLeaves ?ct (take k leaves) ?len = (Inr (), ?ct1)"
    by (rule insertLeaves_end[OF ne])
  have ok1: "treeOK ?d ?ct1" by (rule treeOK_insert_end[OF ok])
  from rebuild_treeOK[OF ok1] obtain t1 where rs: "rebuildSparseTree env ?ct1 = (Inr (), t1)"
    and ok_t1: "treeOK ?d t1" and l0: "level t1 0 = level ?ct1 0" and rb: "rebuilt env t1"
    by blast
  from l0 level_update0[OF ne] have l0': "level t1 0 = level ?ct 0 @ map Some (take k leaves)"
    by simp
  from l0' k len have full: "length (level t1 0) = maxLeaves p" by simp
  from ok_t1 have dt1: "depth t1 = ?d" by (simp add: treeOK_def)
  have "\<exists>h. level t1 (depth t1) = [Some h] \<and> MerkleTree_root t1 = Inr (Some h)"
  proof (rule rebuilt_single_root[OF rb])
    show "0 < depth t1" using dt1 dpos by simp
    show "1 \<le> length (level t1 0)" using full cap by simp
    show "length (level t1 0) \<le> 2 ^ depth t1" using full cap dt1 by simp
  qed
  then obtain r where root: "MerkleTree_root t1 = Inr (Some r)" by blast
  let ?t2 = "\<lparr>treeNumber = ?n, depth = ?d, zeros = getZeroValueLevels env ?d,
              tree = replicate ?d (Some []) @ [Some [Some r]], treeNullifiers = []\<rparr>"
  let ?t2' = "\<lparr>treeNumber = ?n, depth = ?d, zeros = getZeroValueLevels env ?d,
              tree = (replicate ?d (Some []) @ [Some [Some r]])[0 := Some (map Some (drop k leaves))],
              treeNullifiers = []\<rparr>"
  have ct2: "createTree env ?n ?d (Some t1) = Inr ?t2" by (rule createTree_seeded[OF root])
  have ins2: "MerkleTree_insertLeaves ?t2 (drop k leaves) 0 = (Inr (), ?t2')"
    by (rule new_tree_insert[OF dpos])
  let ?p1 = "p\<lparr>trees := (trees p)[?cur := ?ct1]\<rparr>"
  let ?p2 = "p\<lparr>trees := (trees p)[?cur := t1]\<rparr>"
  let ?p3 = "p\<lparr>trees := (trees p)[?cur := t1] @ [?t2], currentTreeIndex := ?n\<rparr>"
  let ?p4 = "p\<lparr>trees := (trees p)[?cur := t1] @ [?t2'], currentTreeIndex := ?n\<rparr>"
  have s1: "onCurrentTree (\<lambda>t. MerkleTree_insertLeaves t (take k leaves) ?len) p = (Inr (), ?p1)"
    using curlt ins1 by (simp add: onCurrentTree_def currentTree_def)
  have s2: "finalizeTree env ?p1 = (Inr (), ?p2)"
    using curlt rs by (simp add: finalizeTree_def onCurrentTree_def currentTree_def)
  have s3: "createNextTree env ?p2 = (Inr (), ?p3)"
    using curlt ct2 by (simp add: createNextTree_def currentTree_def Let_def)
  have lu: "((trees p)[?cur := t1] @ [?t2])[?n := ?t2'] = (trees p)[?cur := t1] @ [?t2']"
    by (simp add: list_update_append)
  have s4: "onCurrentTree (\<lambda>t. MerkleTree_insertLeaves t (drop k leaves) 0) ?p3 = (Inr (), ?p4)"
    using ins2 lu by (simp add: onCurrentTree_def currentTree_def nth_append)
  have c1: "leaves \<noteq> []" using k by auto
  have c2: "?len < maxLeaves p" using len k by simp
  have c3: "currentTree p = Inr ?ct" using curlt by (simp add: currentTree_def)
  have c4: "MerkleTree_length ?ct = Inr ?len" using has_level[OF ne] by (simp add: MerkleTree_length_def)
  have c5: "maxLeaves p < ?len + length leaves" using len k by simp
  have c6: "int (maxLeaves p) - int ?len = int k" using len by simp
  have c7: "sliceFrom leaves (int k) = drop k leaves" by (simp add: sliceFrom_def)
  have main: "MerkleHelper_insertLeaves env p leaves (int ?len) = (Inr ?n, ?p4)"
    unfolding MerkleHelper_insertLeaves_def
    using k(1) c2 by (simp add: c1 c3 c4 c5 c6 c7 s1 s2 s3 s4 Let_def)
  from rs ok_t1 rb l0' root main show ?thesis by blast
qed

lemma insertLeaves_fits:
  assumes inv: "pool_inv p"
    and fit: "length (level (trees p ! currentTreeIndex p) 0) + length leaves \<le> maxLeaves p"
    and ne: "leaves \<noteq> []"
  shows "MerkleHelper_insertLeaves env p leaves
            (int (length (level (trees p ! currentTreeIndex p) 0))) =
          (Inr (currentTreeIndex p),
           p\<lparr>trees := (trees p)[currentTreeIndex p := (trees p ! currentTreeIndex p)
              \<lparr>tree := (tree (trees p ! currentTreeIndex p))
                 [0 := Some (level (trees p ! currentTreeIndex p) 0 @ map Some leaves)]\<rparr>]\<rparr>)"
proof -
  let ?cur = "currentTreeIndex p"
  let ?ct = "trees p ! ?cur"
  let ?len = "length (level ?ct 0)"
  from inv have curlt: "?cur < length (trees p)" and ok: "treeOK (treeDepth p) ?ct"
    by (simp_all add: pool_inv_def)
  from treeOK_has[OF ok] have tne: "has ?ct 0" by simp
  let ?ct1 = "?ct\<lparr>tree := (tree ?ct)[0 := Some (level ?ct 0 @ map Some leaves)]\<rparr>"
  have ins1: "MerkleTree_insertLeaves ?ct leaves ?len = (Inr (), ?ct1)"
    by (rule insertLeaves_end[OF tne])
  have s1: "onCurrentTree (\<lambda>t. MerkleTree_insertLeaves t leaves ?len) p
      = (Inr (), p\<lparr>trees := (trees p)[?cur := ?ct1]\<rparr>)"
    using curlt ins1 by (simp add: onCurrentTree_def currentTree_def)
  have c2: "?len < maxLeaves p" using fit ne by (cases leaves) auto
  have c3: "currentTree p = Inr ?ct" using curlt by (simp add: currentTree_def)
  have c4: "MerkleTree_length ?ct = Inr ?len" using has_level[OF tne] by (simp add: MerkleTree_length_def)
  have c5: "\<not> maxLeaves p < ?len + length leaves" using fit by simp
  show ?thesis
    unfolding MerkleHelper_insertLeaves_def
    using c2 by (simp add: ne c3 c4 c5 s1)
qed

lemma treeOK_new_insert:
  assumes "0 < d"
  shows "treeOK d \<lparr>treeNumber = n, depth = d, zeros = getZeroValueLevels env d,
        tree = (replicate d (Some []) @ [Some [Some r]])[0 := Some (map Some ls)],
        treeNullifiers = []\<rparr>
   \<and> level \<lparr>treeNumber = n, depth = d, zeros = getZeroValueLevels env d,
        tree = (replicate d (Some []) @ [Some [Some r]])[0 := Some (map Some ls)],
        treeNullifiers = []\<rparr> 0 = map Some ls"
proof -
  let ?t = "\<lparr>treeNumber = n, depth = d, zeros = getZeroValueLevels env d,
        tree = replicate d (Some []) @ [Some [Some r]], treeNullifiers = []\<rparr>"
  from new_tree_level0[OF assms, of n "getZeroValueLevels env d" r]
  have h: "has ?t 0" and l: "level ?t 0 = []" by simp_all
  from treeOK_insert_end[OF treeOK_new[OF assms, of n env r], of ls] l level_update0[OF h, of "map Some ls"]
  show ?thesis by simp
qed

lemma pool_inv_update:
  "pool_inv p \<Longrightarrow> treeOK (treeDepth p) t' \<Longrightarrow>
   pool_inv (p\<lparr>trees := (trees p)[currentTreeIndex p := t']\<rparr>)"
  by (simp add: pool_inv_def)

lemma pool_inv_new:
  "0 < d \<Longrightarrow> \<exists>p. MerkleHelper_new env d = Inr p \<and> pool_inv p"
  by (simp add: MerkleHelper_new_def createTree_fresh pool_inv_def treeOK_new)

lemma finalizeTree_inv:
  assumes "pool_inv p"
  shows "\<exists>p'. finalizeTree env p = (Inr (), p') \<and> pool_inv p'"
proof -
  from assms have curlt: "currentTreeIndex p < length (trees p)"
    and ok: "treeOK (treeDepth p) (trees p ! currentTreeIndex p)" by (simp_all add: pool_inv_def)
  from rebuild_treeOK[OF ok] obtain t' where
    "rebuildSparseTree env (trees p ! currentTreeIndex p) = (Inr (), t')" "treeOK (treeDepth p) t'"
    by blast
  with curlt pool_inv_update[OF assms] show ?thesis
    by (simp add: finalizeTree_def onCurrentTree_def currentTree_def)
qed

text \<open>A call with leaves either is rejected by one of the two checks or applies in full.\<close>

lemma insertLeaves_cases:
  assumes inv: "pool_inv p" and ne: "leaves \<noteq> []"
  shows "(s < 0 \<or> int (maxLeaves p) \<le> s) \<and>
           MerkleHelper_insertLeaves env p leaves s = (Inl InvalidStartPosition, p)
       \<or> (0 \<le> s \<and> s < int (maxLeaves p)
            \<and> s \<noteq> int (length (level (trees p ! currentTreeIndex p) 0))) \<and>
           MerkleHelper_insertLeaves env p leaves s = (Inl StartPositionMismatch, p)
       \<or> (s = int (length (level (trees p ! currentTreeIndex p) 0)) \<and> s < int (maxLeaves p)) \<and>
           (\<exists>i p'. MerkleHelper_insertLeaves env p leaves s = (Inr i, p') \<and> pool_inv p')"
proof -
  let ?cur = "currentTreeIndex p"
  let ?ct = "trees p ! ?cur"
  let ?len = "length (level ?ct 0)"
  from inv have curlt: "?cur < length (trees p)" and ok: "treeOK (treeDepth p) ?ct"
    and dpos: "0 < treeDepth p"
    by (simp_all add: pool_inv_def)
  from treeOK_has[OF ok] have tne: "has ?ct 0" by simp
  have c3: "currentTree p = Inr ?ct" using curlt by (simp add: currentTree_def)
  have c4: "MerkleTree_length ?ct = Inr ?len" using has_level[OF tne] by (simp add: MerkleTree_length_def)
  consider (bad) "s < 0 \<or> int (maxLeaves p) \<le> s"
    | (gap) "0 \<le> s" "s < int (maxLeaves p)" "s \<noteq> int ?len"
    | (spill) "s = int ?len" "?len < maxLeaves p" "maxLeaves p < ?len + length leaves"
    | (fits) "s = int ?len" "?len < maxLeaves p" "?len + length leaves \<le> maxLeaves p"
    by linarith
  then show ?thesis
  proof cases
    case bad
    then have "MerkleHelper_insertLeaves env p leaves s = (Inl InvalidStartPosition, p)"
      using ne by (auto simp: MerkleHelper_insertLeaves_def)
    with bad show ?thesis by blast
  next
    case gap
    then have "MerkleHelper_insertLeaves env p leaves s = (Inl StartPositionMismatch, p)"
      using ne by (simp add: MerkleHelper_insertLeaves_def c3 c4)
    with gap show ?thesis by blast
  next
    case spill
    define k where "k = maxLeaves p - ?len"
    with spill have k: "?len + k = maxLeaves p" "0 < k" "k < length leaves" by simp_all
    from insertLeaves_spill[OF inv k, of env] obtain t1 r where
      ok1: "treeOK (treeDepth p) t1"
      and res: "MerkleHelper_insertLeaves env p leaves (int ?len) =
          (Inr (length (trees p)),
           p\<lparr>trees := (trees p)[?cur := t1] @
                 [\<lparr>treeNumber = length (trees p), depth = treeDepth p,
                    zeros = getZeroValueLevels env (treeDepth p),
                    tree = (replicate (treeDepth p) (Some []) @ [Some [Some r]])[0 := Some (map Some (drop k leaves))],
                    treeNullifiers = []\<rparr>],
              currentTreeIndex := length (trees p)\<rparr>)"
      by blast
    let ?new = "\<lparr>treeNumber = length (trees p), depth = treeDepth p,
                    zeros = getZeroValueLevels env (treeDepth p),
                    tree = (replicate (treeDepth p) (Some []) @ [Some [Some r]])[0 := Some (map Some (drop k leaves))],
                    treeNullifiers = []\<rparr>"
    from treeOK_new_insert[OF dpos] have "treeOK (treeDepth p) ?new" by blast
    then have "pool_inv (p\<lparr>trees := (trees p)[?cur := t1] @ [?new],
              currentTreeIndex := length (trees p)\<rparr>)"
      using inv by (simp add: pool_inv_def nth_append)
    with res spill show ?thesis by auto
  next
    case fits
    let ?ct1 = "?ct\<lparr>tree := (tree ?ct)[0 := Some (level ?ct 0 @ map Some leaves)]\<rparr>"
    from insertLeaves_fits[OF inv fits(3) ne, of env]
    have res: "MerkleHelper_insertLeaves env p leaves (int ?len) =
        (Inr ?cur, p\<lparr>trees := (trees p)[?cur := ?ct1]\<rparr>)" .
    have "pool_inv (p\<lparr>trees := (trees p)[?cur := ?ct1]\<rparr>)"
      by (rule pool_inv_update[OF inv treeOK_insert_end[OF ok]])
    with res fits show ?thesis by auto
  qed
qed

lemma rebuilt_levels_agree:
  "rebuilt env t \<Longrightarrow> rebuilt env u \<Longrightarrow> depth t = depth u \<Longrightarrow> zeros t = zeros u \<Longrightarrow>
   level t 0 = level u 0 \<Longrightarrow> k \<le> depth t \<Longrightarrow> level t k = level u k"
proof (induction k)
  case 0
  then show ?case by simp
next
  case (Suc k)
  then have "linked env t k" "linked env u k" "level t k = level u k"
    by (simp_all add: rebuilt_def)
  moreover from Suc.prems(4) have "zeroAt t k = zeroAt u k" by (simp add: zeroAt_def)
  ultimately show ?case by (simp add: linked_def)
qed

lemma rebuilt_roots_agree:
  assumes "rebuilt env t" "rebuilt env u" "depth t = depth u" "zeros t = zeros u"
    "level t 0 = level u 0"
  shows "MerkleTree_root t = MerkleTree_root u"
  using rebuilt_levels_agree[OF assms le_refl] root_rebuilt[OF assms(1)] root_rebuilt[OF assms(2)]
    assms(3) by simp

text \<open>Unfolding rules that evaluate the pool operations on concrete pools.\<close>

lemmas pool_eval_simps = poolOf_def samplePool_def MerkleHelper_insertLeaves_def currentTree_def
  MerkleTree_length_def onCurrentTree_def finalizeTree_def createNextTree_def sliceFrom_def
  MerkleHelper_root_def MerkleHelper_new_def pool_inv_def treeOK_def

section \<open>Unfolding the iterations at a literal depth\<close>

lemma rebuildLevels_numeral:
  "rebuildLevels env (numeral k) lv t =
     (case at (tree t) lv of
        None \<Rightarrow> (Inl TypeError, t\<lparr>tree := assign (tree t) (lv + 1) []\<rparr>)
      | Some l \<Rightarrow>
          (case hashPairs env (zeroAt t lv) l [] of
             (Inl e, out) \<Rightarrow> (Inl e, t\<lparr>tree := assign (tree t) (lv + 1) out\<rparr>)
           | (Inr u, out) \<Rightarrow>
               rebuildLevels env (pred_numeral k) (lv + 1) (t\<lparr>tree := assign (tree t) (lv + 1) out\<rparr>)))"
  by (simp add: numeral_eq_Suc)

lemma proofWalk_numeral:
  "proofWalk t (numeral k) lv index =
     (case at (tree t) lv of
        None \<Rightarrow> Inl TypeError
      | Some l \<Rightarrow>
          (case proofWalk t (pred_numeral k) (lv + 1) (index div 2) of
             Inl e \<Rightarrow> Inl e
           | Inr es \<Rightarrow> Inr (sibling t lv index # es)))"
  by (simp add: numeral_eq_Suc)

lemma zeroLevelsLoop_numeral:
  "zeroLevelsLoop env (numeral k) lv levels =
     zeroLevelsLoop env (pred_numeral k) (lv + 1)
       (levels @ [hashLeftRight env (levels ! (lv - 1)) (levels ! (lv - 1))])"
  by (simp add: numeral_eq_Suc)

lemma replicate_numeral: "replicate (numeral k) x = x # replicate (pred_numeral k) x"
  by (simp add: numeral_eq_Suc)

lemma list16:
  "length (xs :: 'a list) = 16 \<Longrightarrow>
   \<exists>a0 a1 a2 a3 a4 a5 a6 a7 a8 a9 a10 a11 a12 a13 a14 a15.
     xs = [a0, a1, a2, a3, a4, a5, a6, a7, a8, a9, a10, a11, a12, a13, a14, a15]"
  by (simp add: eval_nat_numeral length_Suc_conv) blast

text \<open>The zero values of a tree of depth 16 over the sample primitives.\<close>

lemma sample_zeros:
  "getZeroValueLevels sample 16 =
     [[252], [231], [84], [79], [44], [55], [132], [159], [92], [135], [180], [239], [140], [215],
      [228], [63]]"
  by (simp add: getZeroValueLevels_def zeroLevelsLoop_numeral zeroValue_def hashLeftRight_def sample_def
      samplePoseidon_def sampleBig_def)

lemmas example_eval_simps = exampleProof_def exampleLeaves_def replicate_numeral
  rebuildLevels_numeral proofWalk_numeral zeroLevelsLoop_numeral Let_def

section \<open>The proof round trip\<close>

text \<open>
  C1 (as amended). For every tree that holds at most \<open>2 ^ depth\<close> leaves and every leaf
  value present in level 0: if \<open>rebuildSparseTree\<close> has just run to completion,
  \<open>generateProof\<close> returns a proof for the leaf and \<open>validateProof\<close> returns true on it.
  \<open>generateProof\<close> finds the leaf by its integer value and \<open>hashLeftRight\<close> hashes it at
  32 bytes, so the imported \<open>arrayToByteLength\<close> is taken to give the same 32 bytes for
  arrays of the same \<open>arrayToBigInt\<close>.
\<close>

theorem proof_round_trip:
  assumes width: "\<forall>x y. arrayToBigInt env x = arrayToBigInt env y \<longrightarrow>
                    arrayToByteLength env x 32 = arrayToByteLength env y 32"
    and fin: "rebuildSparseTree env t0 = (Inr (), t)"
    and present: "Some leaf \<in> set (level t 0)"
    and cap: "length (level t 0) \<le> 2 ^ depth t"
  shows "\<exists>p. MerkleTree_generateProof env t leaf = Inr p \<and> validateProof env p = Inr True"
proof -
  from level_has[OF present] have ne: "has t 0" .
  from rebuildSparseTree_nonempty[OF fin ne] have "has t0 0" .
  from rebuildSparseTree_rebuilt(1)[OF fin this] have rb: "rebuilt env t" .
  from present indexOfBig_None[of env "level t 0" "arrayToBigInt env leaf" 0 leaf]
  obtain i where ix: "indexOfBig env (level t 0) (arrayToBigInt env leaf) 0 = Some i"
    by (cases "indexOfBig env (level t 0) (arrayToBigInt env leaf) 0") auto
  from generateProof_found[OF rb ix] obtain b w es where
    il: "i < length (level t 0)" and ib: "level t 0 ! i = Some b"
    and bb: "arrayToBigInt env b = arrayToBigInt env leaf"
    and gp: "MerkleTree_generateProof env t leaf =
               Inr \<lparr>element = leaf, elements = es, indices = int i, root = at (level t (depth t)) 0\<rparr>"
    and len: "length es = depth t"
    and wl: "i div 2 ^ depth t < length (level t (depth t))"
    and ww: "level t (depth t) ! (i div 2 ^ depth t) = Some w"
    and red: "reduceProof env (int i) 0 b es = Inr w"
    by blast
  have red': "reduceProof env (int i) 0 leaf es = Inr w"
  proof (cases "depth t = 0")
    case True
    with cap il have i0: "i = 0" and l1: "length (level t 0) = 1" by simp_all
    from l1 obtain x where x: "level t 0 = [x]" by (cases "level t 0") auto
    with present ib i0 have "b = leaf" by simp
    with red show ?thesis by simp
  next
    case False
    with len have nonempty: "es \<noteq> []" by auto
    from bb have "arrayToBigInt env leaf = arrayToBigInt env b" by (rule sym)
    with width have "arrayToByteLength env leaf 32 = arrayToByteLength env b 32"
      by blast
    from reduceProof_same_width[OF this nonempty] red show ?thesis by simp
  qed
  from il cap have "i div 2 ^ depth t = 0" by simp
  with wl ww have "at (level t (depth t)) 0 = Some w" by (simp add: at_def)
  with red'
  have "validateProof env \<lparr>element = leaf, elements = es, indices = int i,
          root = at (level t (depth t)) 0\<rparr> = Inr True"
    by (simp add: validateProof_def)
  with gp show ?thesis by blast
qed

text \<open>
  The round trip on a full tree of depth 1 over the sample primitives, whose
  \<open>arrayToByteLength\<close> is a function of the integer value.
\<close>

theorem proof_round_trip_witness:
  "rebuildSparseTree sample (sampleTree [Some [1], Some [2]] [Some [231]])
     = (Inr (), sampleTree [Some [1], Some [2]] [Some [11]])
   \<and> Some [2] \<in> set (level (sampleTree [Some [1], Some [2]] [Some [11]]) 0)
   \<and> length (level (sampleTree [Some [1], Some [2]] [Some [11]]) 0)
        \<le> 2 ^ depth (sampleTree [Some [1], Some [2]] [Some [11]])
   \<and> (\<exists>p. MerkleTree_generateProof sample (sampleTree [Some [1], Some [2]] [Some [11]]) [2] = Inr p
          \<and> validateProof sample p = Inr True)"
proof -
  let ?t = "sampleTree [Some [1], Some [2]] [Some [11]]"
  have h0: "\<forall>x y. arrayToBigInt sample x = arrayToBigInt sample y \<longrightarrow>
           arrayToByteLength sample x 32 = arrayToByteLength sample y 32"
    by (simp add: sample_def)
  have h1: "rebuildSparseTree sample (sampleTree [Some [1], Some [2]] [Some [231]]) = (Inr (), ?t)"
    by (simp add: eval_simps)
  have h2: "Some [2] \<in> set (level ?t 0)" by (simp add: eval_simps)
  have h3: "length (level ?t 0) \<le> 2 ^ depth ?t" by (simp add: eval_simps)
  from proof_round_trip [OF h0 h1 h2 h3] h1 h2 h3 show ?thesis by blast
qed

text \<open>
  Without the bound on the leaf level the round trip fails. \<open>insertLeaves\<close> of a tree
  checks no capacity: three leaves go into a tree of depth 1, the rebuild leaves two
  hashes in the root level, and the proof of the third leaf leads to the second of them,
  not to the root.
\<close>

theorem proof_round_trip_counterexample:
  "createTree sample 0 1 None = Inr (sampleTree [] [Some [231]])
   \<and> MerkleTree_insertLeaves (sampleTree [] [Some [231]]) [[1], [2], [3]] 0
       = (Inr (), sampleTree [Some [1], Some [2], Some [3]] [Some [231]])
   \<and> rebuildSparseTree sample (sampleTree [Some [1], Some [2], Some [3]] [Some [231]])
       = (Inr (), sampleTree [Some [1], Some [2], Some [3]] [Some [11], Some [17]])
   \<and> MerkleTree_generateProof sample
         (sampleTree [Some [1], Some [2], Some [3]] [Some [11], Some [17]]) [3]
       = Inr \<lparr>element = [3], elements = [Some [252]], indices = 2, root = Some [11]\<rparr>
   \<and> validateProof sample
         \<lparr>element = [3], elements = [Some [252]], indices = 2, root = Some [11]\<rparr> = Inr False"
  by (simp add: eval_simps)

section \<open>Definedness of the proof elements\<close>










section \<open>Validation follows its specification\<close>

text \<open>
  C7. For every proof, \<open>validateProof\<close> computes what the specification describes:
  from \<open>proof.element\<close>, level by level, the hash of the running hash and
  \<open>proof.elements[i]\<close>, the running hash on the right if bit \<open>i\<close> of \<open>proof.indices\<close> is set
  and on the left otherwise, and it returns true iff the final hash is byte for byte
  \<open>proof.root\<close>. The code compares the hexadecimal strings, so the encoding
  \<open>bytesToHex\<close> is taken to be injective.
\<close>

theorem validateProof_refines:
  assumes "inj (bytesToHex env)"
  shows "validateProof env p = validateProof_spec env p"
proof -
  have "reduceProof env (indices p) 0 (element p) (elements p) = combineFrom env p 0 (element p)"
    by (rule reduceProof_combineFrom) simp
  moreover have "\<And>r c. (bytesToHex env r = bytesToHex env c) = (c = r)"
    using assms by (auto dest: injD)
  ultimately show ?thesis
    by (simp add: validateProof_def validateProof_spec_def split: sum.splits option.splits)
qed

theorem validateProof_refines_witness:
  "inj (bytesToHex sample) \<and>
   validateProof sample \<lparr>element = [1], elements = [Some [2]], indices = 0, root = Some [11]\<rparr>
     = validateProof_spec sample \<lparr>element = [1], elements = [Some [2]], indices = 0, root = Some [11]\<rparr>"
  using validateProof_refines [OF inj_sample_bytesToHex] inj_sample_bytesToHex by simp

section \<open>The nullifier set\<close>

lemma insertLeaves_pool_nullifiers:
  "nullifiers (snd (insertTXIDLeaves env m ls sp)) = nullifiers m"
  by (simp add: insertTXIDLeaves_def split: prod.splits sum.splits)

text \<open>
  C8. A new manager answers false for every identifier; after a successful
  \<open>insertNullifier\<close> the answer for that identifier is true; inserting it again fails
  with the duplicate error and leaves the manager as it was; \<open>checkNullifier\<close> changes
  nothing; and neither inserting another identifier nor inserting leaves changes the
  answer for this one.
\<close>

theorem nullifier_uniqueness:
  "(MerkleManager_new env d = Inr m0 \<longrightarrow> fst (checkNullifier m0 n) = False)
   \<and> (\<not> fst (checkNullifier m n) \<longrightarrow>
        fst (insertNullifier m n) = Inr ()
        \<and> fst (checkNullifier (snd (insertNullifier m n)) n)
        \<and> insertNullifier (snd (insertNullifier m n)) n
            = (Inl NullifierExists, snd (insertNullifier m n)))
   \<and> (fst (checkNullifier m n) \<longrightarrow> insertNullifier m n = (Inl NullifierExists, m))
   \<and> snd (checkNullifier m n) = m
   \<and> (n' \<noteq> n \<longrightarrow> fst (checkNullifier (snd (insertNullifier m n')) n) = fst (checkNullifier m n))
   \<and> fst (checkNullifier (snd (insertTXIDLeaves env m ls sp)) n) = fst (checkNullifier m n)"
  by (auto simp: MerkleManager_new_def checkNullifier_def insertNullifier_def
        insertLeaves_pool_nullifiers split: sum.splits)

theorem nullifier_uniqueness_witness:
  "MerkleManager_new sample 1 = Inr sampleManager
   \<and> fst (checkNullifier sampleManager ''n1'') = False
   \<and> fst (insertNullifier sampleManager ''n1'') = Inr ()
   \<and> fst (checkNullifier (snd (insertNullifier sampleManager ''n1'')) ''n1'') = True
   \<and> insertNullifier (snd (insertNullifier sampleManager ''n1'')) ''n1''
       = (Inl NullifierExists, snd (insertNullifier sampleManager ''n1''))
   \<and> snd (checkNullifier sampleManager ''n1'') = sampleManager
   \<and> fst (checkNullifier (snd (insertNullifier sampleManager ''n2'')) ''n1'') = False"
proof -
  have h0: "MerkleManager_new sample 1 = Inr sampleManager"
    by (simp add: MerkleManager_new_def MerkleHelper_new_def sampleManager_def samplePool_def
        poolOf_def eval_simps)
  have h1: "\<not> fst (checkNullifier sampleManager ''n1'')"
    by (simp add: checkNullifier_def sampleManager_def)
  have h2: "fst (checkNullifier (snd (insertNullifier sampleManager ''n1'')) ''n1'')"
    by (simp add: checkNullifier_def insertNullifier_def sampleManager_def)
  have h3: "''n2'' \<noteq> ''n1''" by simp
  from nullifier_uniqueness [of sample 1 sampleManager "''n1''" sampleManager "''n2''" "[]" 0]
    nullifier_uniqueness [of sample 1 sampleManager "''n1''"
      "snd (insertNullifier sampleManager ''n1'')" "''n2''" "[]" 0]
    h0 h1 h2 h3
  show ?thesis by simp
qed

section \<open>Empty insertions\<close>

text \<open>
  C9. For every start position whatsoever, \<open>insertLeaves\<close> of the pool with an empty
  array of leaves returns the current tree index, raises no error and leaves the pool as
  it was: the offset and contiguity checks are not reached.
\<close>

theorem empty_insert_is_noop:
  "MerkleHelper_insertLeaves env p [] startPosition = (Inr (currentTreeIndex p), p)"
  by (simp add: MerkleHelper_insertLeaves_def)

section \<open>The spill protocol\<close>

text \<open>
  C2 (as amended). For every pool whose current tree holds capacity - k leaves (k > 0),
  inserting k + m leaves (m > 0) at start position capacity - k does exactly this, in this
  order: the first k leaves go into the current tree, that tree is finalized (\<open>t1\<close>, with
  root \<open>r\<close>), a new tree \<open>t2\<close> is appended whose root before any insertion is \<open>r\<close>, the
  remaining m leaves are inserted into it from position 0 (\<open>t2'\<close>), and the index returned
  is that of the new tree. Once the new tree is finalized its root is the root of a tree
  that was never seeded and holds the same m leaves: nothing of the placeholder is left
  in it.
\<close>

theorem spill_protocol:
  assumes inv: "pool_inv p"
    and held: "length (level (trees p ! currentTreeIndex p) 0) + k = maxLeaves p"
    and k: "0 < k" and split: "length leaves = k + m" and m: "0 < m"
  shows "\<exists>t1 r t2 t2' p'.
      rebuildSparseTree env (snd (MerkleTree_insertLeaves (trees p ! currentTreeIndex p)
          (take k leaves) (maxLeaves p - k))) = (Inr (), t1)
    \<and> level t1 0 = level (trees p ! currentTreeIndex p) 0 @ map Some (take k leaves)
    \<and> MerkleTree_root t1 = Inr (Some r)
    \<and> createTree env (length (trees p)) (treeDepth p) (Some t1) = Inr t2
    \<and> MerkleTree_root t2 = Inr (Some r)
    \<and> MerkleTree_insertLeaves t2 (drop k leaves) 0 = (Inr (), t2')
    \<and> level t2' 0 = map Some (drop k leaves)
    \<and> MerkleHelper_insertLeaves env p leaves (int (maxLeaves p - k)) = (Inr (length (trees p)), p')
    \<and> p' = p\<lparr>trees := (trees p)[currentTreeIndex p := t1] @ [t2'],
               currentTreeIndex := length (trees p)\<rparr>
    \<and> (\<exists>p'' fresh f3. finalizeTree env p' = (Inr (), p'')
          \<and> createTree env (length (trees p)) (treeDepth p) None = Inr fresh
          \<and> rebuildSparseTree env (snd (MerkleTree_insertLeaves fresh (drop k leaves) 0)) = (Inr (), f3)
          \<and> MerkleHelper_root p'' = MerkleTree_root f3)"
proof -
  let ?cur = "currentTreeIndex p"
  let ?ct = "trees p ! ?cur"
  let ?d = "treeDepth p"
  let ?n = "length (trees p)"
  let ?len = "length (level ?ct 0)"
  let ?rest = "drop k leaves"
  from inv have dpos: "0 < ?d" and curlt: "?cur < ?n" and ok: "treeOK ?d ?ct"
    by (simp_all add: pool_inv_def)
  from treeOK_has[OF ok] have ne: "has ?ct 0" by simp
  from held have len: "?len + k = maxLeaves p" by simp
  then have start: "maxLeaves p - k = ?len" by simp
  from split m have kl: "k < length leaves" by simp
  let ?ct1 = "?ct\<lparr>tree := (tree ?ct)[0 := Some (level ?ct 0 @ map Some (take k leaves))]\<rparr>"
  have ins1: "MerkleTree_insertLeaves ?ct (take k leaves) ?len = (Inr (), ?ct1)"
    by (rule insertLeaves_end[OF ne])
  from insertLeaves_spill[OF inv len k kl, of env] obtain t1 r where
    rs: "rebuildSparseTree env ?ct1 = (Inr (), t1)"
    and ok1: "treeOK ?d t1" and l0: "level t1 0 = level ?ct 0 @ map Some (take k leaves)"
    and root: "MerkleTree_root t1 = Inr (Some r)"
    and res: "MerkleHelper_insertLeaves env p leaves (int ?len) =
          (Inr ?n,
           p\<lparr>trees := (trees p)[?cur := t1] @
                 [\<lparr>treeNumber = ?n, depth = ?d, zeros = getZeroValueLevels env ?d,
                    tree = (replicate ?d (Some []) @ [Some [Some r]])[0 := Some (map Some ?rest)],
                    treeNullifiers = []\<rparr>],
              currentTreeIndex := ?n\<rparr>)"
    by blast
  let ?t2 = "\<lparr>treeNumber = ?n, depth = ?d, zeros = getZeroValueLevels env ?d,
              tree = replicate ?d (Some []) @ [Some [Some r]], treeNullifiers = []\<rparr>"
  let ?t2' = "\<lparr>treeNumber = ?n, depth = ?d, zeros = getZeroValueLevels env ?d,
              tree = (replicate ?d (Some []) @ [Some [Some r]])[0 := Some (map Some ?rest)],
              treeNullifiers = []\<rparr>"
  let ?p' = "p\<lparr>trees := (trees p)[?cur := t1] @ [?t2'], currentTreeIndex := ?n\<rparr>"
  from l0 have a2: "level t1 0 = level ?ct 0 @ map Some (take k leaves)" .
  have a4: "createTree env ?n ?d (Some t1) = Inr ?t2" by (rule createTree_seeded[OF root])
  have a5: "MerkleTree_root ?t2 = Inr (Some r)" by (rule new_tree_root)
  have a6: "MerkleTree_insertLeaves ?t2 ?rest 0 = (Inr (), ?t2')" by (rule new_tree_insert[OF dpos])
  from treeOK_new_insert[OF dpos] have ok2': "treeOK ?d ?t2'"
    and a7: "level ?t2' 0 = map Some ?rest" by blast+
  from rebuild_treeOK[OF ok2', of env] obtain t3 where
    r3: "rebuildSparseTree env ?t2' = (Inr (), t3)" and ok3: "treeOK ?d t3"
    and l3: "level t3 0 = level ?t2' 0" and rb3: "rebuilt env t3" by blast
  let ?p'' = "?p'\<lparr>trees := (trees ?p')[currentTreeIndex ?p' := t3]\<rparr>"
  have fin: "finalizeTree env ?p' = (Inr (), ?p'')"
    using r3 by (simp add: finalizeTree_def onCurrentTree_def currentTree_def nth_append)
  have rootp: "MerkleHelper_root ?p'' = MerkleTree_root t3"
    by (simp add: MerkleHelper_root_def currentTree_def)
  let ?fresh = "\<lparr>treeNumber = ?n, depth = ?d, zeros = getZeroValueLevels env ?d,
           tree = replicate ?d (Some []) @ [Some [Some (hashLeftRight env (getZeroValueLevels env ?d ! (?d - 1))
                                            (getZeroValueLevels env ?d ! (?d - 1)))]],
           treeNullifiers = []\<rparr>"
  let ?fresh' = "\<lparr>treeNumber = ?n, depth = ?d, zeros = getZeroValueLevels env ?d,
           tree = (replicate ?d (Some []) @ [Some [Some (hashLeftRight env (getZeroValueLevels env ?d ! (?d - 1))
                                            (getZeroValueLevels env ?d ! (?d - 1)))]])
                    [0 := Some (map Some ?rest)],
           treeNullifiers = []\<rparr>"
  have cf: "createTree env ?n ?d None = Inr ?fresh" by (rule createTree_fresh[OF dpos])
  have "MerkleTree_insertLeaves ?fresh ?rest 0 = (Inr (), ?fresh')"
    by (rule new_tree_insert[OF dpos])
  then have insf: "snd (MerkleTree_insertLeaves ?fresh ?rest 0) = ?fresh'" by simp
  from treeOK_new_insert[OF dpos] have okf: "treeOK ?d ?fresh'"
    and f7: "level ?fresh' 0 = map Some ?rest" by blast+
  from rebuild_treeOK[OF okf, of env] obtain f3 where
    rf: "rebuildSparseTree env ?fresh' = (Inr (), f3)" and okf3: "treeOK ?d f3"
    and lf: "level f3 0 = level ?fresh' 0" and rbf: "rebuilt env f3" by blast
  from rebuildSparseTree_fields[OF r3] rebuildSparseTree_fields[OF rf]
  have same: "depth t3 = depth f3" "zeros t3 = zeros f3" by simp_all
  from l3 lf a7 f7 have "level t3 0 = level f3 0" by simp
  from rebuilt_roots_agree[OF rb3 rbf same this] rootp
  have a10: "MerkleHelper_root ?p'' = MerkleTree_root f3" by simp
  have a1: "rebuildSparseTree env (snd (MerkleTree_insertLeaves ?ct (take k leaves) (maxLeaves p - k)))
      = (Inr (), t1)" using rs ins1 start by simp
  have a8: "MerkleHelper_insertLeaves env p leaves (int (maxLeaves p - k)) = (Inr ?n, ?p')"
    using res start by simp
  from fin cf rf insf a10 have a9: "\<exists>p'' fresh f3. finalizeTree env ?p' = (Inr (), p'')
          \<and> createTree env ?n ?d None = Inr fresh
          \<and> rebuildSparseTree env (snd (MerkleTree_insertLeaves fresh ?rest 0)) = (Inr (), f3)
          \<and> MerkleHelper_root p'' = MerkleTree_root f3"
    by (intro exI[of _ ?p''] exI[of _ ?fresh] exI[of _ f3]) simp
  from a1 a2 root a4 a5 a6 a7 a8 a9 show ?thesis by blast
qed

text \<open>
  A pool of depth 1 whose tree holds one leaf takes two more: the first fills the tree,
  the second opens tree 1, seeded with the root of the full tree 0.
\<close>

theorem spill_protocol_witness:
  "pool_inv (poolOf [sampleTree [Some [1]] [Some [231]]] 0)
   \<and> MerkleHelper_insertLeaves sample (poolOf [sampleTree [Some [1]] [Some [231]]] 0) [[2], [3]] 1
       = (Inr 1, poolOf [sampleTree [Some [1], Some [2]] [Some [11]],
                         (sampleTree [Some [3]] [Some [11]])\<lparr>treeNumber := 1\<rparr>] 1)
   \<and> (\<exists>t1 r t2 t2' p'.
        rebuildSparseTree sample (snd (MerkleTree_insertLeaves (sampleTree [Some [1]] [Some [231]])
            (take 1 [[2], [3]]) 1)) = (Inr (), t1)
      \<and> MerkleTree_root t1 = Inr (Some r)
      \<and> createTree sample 1 1 (Some t1) = Inr t2
      \<and> MerkleTree_root t2 = Inr (Some r)
      \<and> MerkleTree_insertLeaves t2 (drop 1 [[2], [3]]) 0 = (Inr (), t2')
      \<and> MerkleHelper_insertLeaves sample (poolOf [sampleTree [Some [1]] [Some [231]]] 0) [[2], [3]] 1
           = (Inr 1, p'))"
proof -
  let ?p = "poolOf [sampleTree [Some [1]] [Some [231]]] 0"
  have h1: "pool_inv ?p" by (simp add: pool_eval_simps eval_simps)
  have h2: "length (level (trees ?p ! currentTreeIndex ?p) 0) + 1 = maxLeaves ?p"
    by (simp add: pool_eval_simps eval_simps)
  have h3: "(0::nat) < 1" by simp
  have h4: "length [[2], [3 :: 8 word]] = 1 + 1" by simp
  have e: "MerkleHelper_insertLeaves sample ?p [[2], [3]] 1
       = (Inr 1, poolOf [sampleTree [Some [1], Some [2]] [Some [11]],
                         (sampleTree [Some [3]] [Some [11]])\<lparr>treeNumber := 1\<rparr>] 1)"
    by (simp add: pool_eval_simps eval_simps)
  from spill_protocol [OF h1 h2 h3 h4 h3, of sample] obtain t1 r t2 t2' p' where
    "rebuildSparseTree sample (snd (MerkleTree_insertLeaves (trees ?p ! currentTreeIndex ?p)
          (take 1 [[2], [3]]) (maxLeaves ?p - 1))) = (Inr (), t1)"
    "MerkleTree_root t1 = Inr (Some r)"
    "createTree sample (length (trees ?p)) (treeDepth ?p) (Some t1) = Inr t2"
    "MerkleTree_root t2 = Inr (Some r)"
    "MerkleTree_insertLeaves t2 (drop 1 [[2], [3]]) 0 = (Inr (), t2')"
    "MerkleHelper_insertLeaves sample ?p [[2], [3]] (int (maxLeaves ?p - 1)) = (Inr (length (trees ?p)), p')"
    by blast
  then have "\<exists>t1 r t2 t2' p'.
        rebuildSparseTree sample (snd (MerkleTree_insertLeaves (sampleTree [Some [1]] [Some [231]])
            (take 1 [[2], [3]]) 1)) = (Inr (), t1)
      \<and> MerkleTree_root t1 = Inr (Some r)
      \<and> createTree sample 1 1 (Some t1) = Inr t2
      \<and> MerkleTree_root t2 = Inr (Some r)
      \<and> MerkleTree_insertLeaves t2 (drop 1 [[2], [3]]) 0 = (Inr (), t2')
      \<and> MerkleHelper_insertLeaves sample ?p [[2], [3]] 1 = (Inr 1, p')"
    by (simp add: poolOf_def)
  with h1 e show ?thesis by blast
qed

text \<open>
  The root of the new tree need not differ from the placeholder. The same pool takes the
  leaves 2, 1, 2: tree 1 receives the leaves 1, 2 that tree 0 holds, and after it is
  finalized its root is the root of tree 0, which is the placeholder it was seeded with.
\<close>

theorem spill_protocol_counterexample:
  "MerkleHelper_insertLeaves sample (poolOf [sampleTree [Some [1]] [Some [231]]] 0) [[2], [1], [2]] 1
     = (Inr 1, poolOf [sampleTree [Some [1], Some [2]] [Some [11]],
                       (sampleTree [Some [1], Some [2]] [Some [11]])\<lparr>treeNumber := 1\<rparr>] 1)
   \<and> createTree sample 1 1 (Some (sampleTree [Some [1], Some [2]] [Some [11]]))
       = Inr ((sampleTree [] [Some [11]])\<lparr>treeNumber := 1\<rparr>)
   \<and> MerkleTree_root (sampleTree [Some [1], Some [2]] [Some [11]]) = Inr (Some [11])
   \<and> finalizeTree sample
         (poolOf [sampleTree [Some [1], Some [2]] [Some [11]],
                  (sampleTree [Some [1], Some [2]] [Some [11]])\<lparr>treeNumber := 1\<rparr>] 1)
       = (Inr (), poolOf [sampleTree [Some [1], Some [2]] [Some [11]],
                          (sampleTree [Some [1], Some [2]] [Some [11]])\<lparr>treeNumber := 1\<rparr>] 1)
   \<and> MerkleHelper_root
         (poolOf [sampleTree [Some [1], Some [2]] [Some [11]],
                  (sampleTree [Some [1], Some [2]] [Some [11]])\<lparr>treeNumber := 1\<rparr>] 1)
       = Inr (Some [11])"
  by (simp add: pool_eval_simps eval_simps)

section \<open>The checks of an insertion\<close>

text \<open>
  C4 (as amended). For every call of the pool's \<open>insertLeaves\<close> with at least one leaf,
  on a pool whose current tree exists: a start position that is negative or at least
  the capacity fails with the invalid-offset error; a start position in range that is not
  the leaf count of the current tree fails with the non-contiguous-insertion error; and
  whenever the call fails, it fails with one of these two errors and the pool with all its
  trees is as it was before the call.
\<close>

theorem insertLeaves_checks:
  assumes inv: "pool_inv p" and ne: "leaves \<noteq> []"
  shows "(s < 0 \<or> int (maxLeaves p) \<le> s \<longrightarrow>
            MerkleHelper_insertLeaves env p leaves s = (Inl InvalidStartPosition, p))
       \<and> (0 \<le> s \<and> s < int (maxLeaves p)
            \<and> s \<noteq> int (length (level (trees p ! currentTreeIndex p) 0)) \<longrightarrow>
            MerkleHelper_insertLeaves env p leaves s = (Inl StartPositionMismatch, p))
       \<and> (\<forall>e p'. MerkleHelper_insertLeaves env p leaves s = (Inl e, p') \<longrightarrow>
            p' = p \<and> (e = InvalidStartPosition \<or> e = StartPositionMismatch))"
  using insertLeaves_cases[OF inv ne, of s env] by (elim disjE conjE exE) auto

text \<open>The three rejected start positions on the new pool of depth 1.\<close>

theorem insertLeaves_checks_witness:
  "pool_inv samplePool
   \<and> MerkleHelper_insertLeaves sample samplePool [[1]] (- 1) = (Inl InvalidStartPosition, samplePool)
   \<and> MerkleHelper_insertLeaves sample samplePool [[1]] 2 = (Inl InvalidStartPosition, samplePool)
   \<and> MerkleHelper_insertLeaves sample samplePool [[1]] 1 = (Inl StartPositionMismatch, samplePool)"
proof -
  have h1: "pool_inv samplePool" by (simp add: pool_eval_simps eval_simps)
  have h2: "[[1 :: 8 word]] \<noteq> []" by simp
  have h3: "int (maxLeaves samplePool) \<le> 2" by (simp add: pool_eval_simps)
  have h4: "(0::int) \<le> 1 \<and> 1 < int (maxLeaves samplePool)
      \<and> 1 \<noteq> int (length (level (trees samplePool ! currentTreeIndex samplePool) 0))"
    by (simp add: pool_eval_simps eval_simps)
  from insertLeaves_checks [OF h1 h2, of "- 1" sample] insertLeaves_checks [OF h1 h2, of 2 sample]
    insertLeaves_checks [OF h1 h2, of 1 sample] h1 h3 h4
  show ?thesis by simp
qed

text \<open>
  With no leaves the checks are not reached: a negative start position and one beyond
  the capacity both return the current tree index.
\<close>

theorem insertLeaves_checks_counterexample:
  "MerkleHelper_insertLeaves sample samplePool [] (- 1) = (Inr 0, samplePool)
   \<and> MerkleHelper_insertLeaves sample samplePool [] 5 = (Inr 0, samplePool)"
  by (simp add: pool_eval_simps)

section \<open>The capacity of a tree of the pool\<close>

text \<open>
  C5. The leaf level of a tree of the pool is meant to hold at most \<open>2 ^ depth\<close> leaves
  after every operation. The spill of \<open>insertLeaves\<close> hands the whole remainder to the new
  tree without comparing it with \<open>maxLeaves\<close>: the new pool of depth 1 (capacity 2) takes
  five leaves at position 0, and its second tree then holds three.
\<close>

theorem pool_overfills_new_tree:
  "MerkleHelper_new sample 1 = Inr samplePool
   \<and> maxLeaves samplePool = 2
   \<and> MerkleHelper_insertLeaves sample samplePool [[1], [2], [3], [4], [5]] 0
       = (Inr 1, poolOf [sampleTree [Some [1], Some [2]] [Some [11]],
                         (sampleTree [Some [3], Some [4], Some [5]] [Some [11]])\<lparr>treeNumber := 1\<rparr>] 1)
   \<and> length (level ((sampleTree [Some [3], Some [4], Some [5]] [Some [11]])\<lparr>treeNumber := 1\<rparr>) 0) = 3"
  by (simp add: pool_eval_simps eval_simps)

section \<open>The root level of an empty tree\<close>

text \<open>
  C6. The root level is meant to hold exactly one hash after every operation, also
  on a tree with no leaves. \<open>createTree\<close> gives such a tree (its root level holds the zero
  root), but \<open>rebuildSparseTree\<close> on it replaces every level above the leaves by the
  empty array: the root level is empty and \<open>root\<close> is undefined.
\<close>

theorem rebuild_of_empty_tree:
  "createTree sample 0 1 None = Inr (sampleTree [] [Some [231]])
   \<and> level (sampleTree [] [Some [231]]) (depth (sampleTree [] [Some [231]])) = [Some [231]]
   \<and> rebuildSparseTree sample (sampleTree [] [Some [231]]) = (Inr (), sampleTree [] [])
   \<and> level (sampleTree [] []) (depth (sampleTree [] [])) = []
   \<and> MerkleTree_root (sampleTree [] []) = Inr None"
  by (simp add: eval_simps)

section \<open>The worked example\<close>

text \<open>
  C3 (as amended). The leaves 0x02, 0x04, 0x08, 0x10, 0x20, 0x40 are inserted at position
  0 into a fresh tree of depth 16, which is then finalized. Provided \<open>arrayToBigInt\<close> tells
  the leaf 0x10 from the three leaves before it, \<open>generateProof\<close> of 0x10 returns
  \<open>indices = 3\<close> and sixteen elements: the leaf 0x08, then the hash of the leaves 0x02 and
  0x04, then the hash of (the hash of the leaves 0x20 and 0x40) with the zero value of
  level 1, then the zero values of the tree from level 3 upward.
\<close>

theorem worked_example:
  assumes s2: "arrayToBigInt env [0x02] \<noteq> arrayToBigInt env [0x10]"
    and s4: "arrayToBigInt env [0x04] \<noteq> arrayToBigInt env [0x10]"
    and s8: "arrayToBigInt env [0x08] \<noteq> arrayToBigInt env [0x10]"
  shows "\<exists>t0 r. createTree env 0 16 None = Inr t0 \<and> zeros t0 = getZeroValueLevels env 16 \<and>
           exampleProof env =
           Inr \<lparr>element = [0x10],
                elements = [Some [0x08], Some (hashLeftRight env [0x02] [0x04]),
                            Some (hashLeftRight env (hashLeftRight env [0x20] [0x40])
                                    (getZeroValueLevels env 16 ! 1))]
                           @ map Some (drop 3 (getZeroValueLevels env 16)),
                indices = 3, root = r\<rparr>"
proof -
  define zs where "zs = getZeroValueLevels env 16"
  have "length zs = 16" by (simp add: zs_def length_getZeroValueLevels)
  from list16[OF this] obtain a0 a1 a2 a3 a4 a5 a6 a7 a8 a9 a10 a11 a12 a13 a14 a15 where
    zs: "zs = [a0, a1, a2, a3, a4, a5, a6, a7, a8, a9, a10, a11, a12, a13, a14, a15]" by blast
  have ct: "createTree env 0 16 None =
     Inr \<lparr>treeNumber = 0, depth = 16, zeros = zs,
           tree = replicate 16 (Some []) @ [Some [Some (hashLeftRight env (zs ! 15) (zs ! 15))]],
           treeNullifiers = []\<rparr>"
    using createTree_fresh[of 16 env 0] by (simp add: zs_def)
  show ?thesis
    unfolding exampleProof_def ct zs_def[symmetric]
    using s2 s4 s8
    by (simp add: zs exampleLeaves_def replicate_numeral MerkleTree_insertLeaves_def assign_def
        rebuildSparseTree_def rebuildLevels_numeral zeroAt_def nullish_def at_def level_def
        hashSlots_def MerkleTree_generateProof_def proofWalk_numeral sibling_def MerkleTree_root_def)
qed

text \<open>
  The worked example over the sample primitives: the second and third elements are the
  hashes 19 and 252, the rest of the elements are the zero values from level 3 upward.
\<close>

theorem worked_example_witness:
  "arrayToBigInt sample [0x02] \<noteq> arrayToBigInt sample [0x10]
   \<and> arrayToBigInt sample [0x04] \<noteq> arrayToBigInt sample [0x10]
   \<and> arrayToBigInt sample [0x08] \<noteq> arrayToBigInt sample [0x10]
   \<and> (\<exists>r. exampleProof sample =
          Inr \<lparr>element = [0x10],
               elements = map Some [[8], [19], [252], [79], [44], [55], [132], [159], [92], [135],
                                    [180], [239], [140], [215], [228], [63]],
               indices = 3, root = r\<rparr>)"
proof -
  have h2: "arrayToBigInt sample [0x02] \<noteq> arrayToBigInt sample [0x10]" by (simp add: sample_simps)
  have h4: "arrayToBigInt sample [0x04] \<noteq> arrayToBigInt sample [0x10]" by (simp add: sample_simps)
  have h8: "arrayToBigInt sample [0x08] \<noteq> arrayToBigInt sample [0x10]" by (simp add: sample_simps)
  have hs: "hashLeftRight sample [0x02] [0x04] = [19]"
    "hashLeftRight sample (hashLeftRight sample [0x20] [0x40]) [231] = [252]"
    by (simp_all add: sample_simps)
  from worked_example [OF h2 h4 h8] h2 h4 h8 show ?thesis
    by (simp add: sample_zeros hs) blast
qed

text \<open>
  The elements at levels 1 and 2 are not the zero values of these levels: over the sample
  primitives they are 19 and 252 where the zero values are 231 and 84. They are hashes of
  leaves, since levels 1 and 2 of the tree hold three and two nodes.
\<close>

theorem worked_example_counterexample:
  "exampleProof sample =
     Inr \<lparr>element = [0x10],
          elements = [Some [8], Some [19], Some [252], Some [79], Some [44], Some [55], Some [132],
                      Some [159], Some [92], Some [135], Some [180], Some [239], Some [140],
                      Some [215], Some [228], Some [63]],
          indices = 3, root = Some [188]\<rparr>
   \<and> getZeroValueLevels sample 16 =
       [[252], [231], [84], [79], [44], [55], [132], [159], [92], [135], [180], [239], [140],
        [215], [228], [63]]"
  by (simp add: example_eval_simps eval_simps)

end
